theory Spec2Isabelle
  imports Complex_Main "HOL-Library.AList" "HOL-Library.Sublist"
begin

section \<open>Strings\<close>

text \<open>
  Python strings are modelled as \<open>string\<close>; only ASCII letters change case.
\<close>

definition backslash :: char where
  "backslash = CHR 0x5C"

definition upper_char :: "char \<Rightarrow> char" where
  "upper_char c =
     (let n = (of_char c :: nat) in if 97 \<le> n \<and> n \<le> 122 then char_of (n - 32) else c)"

definition lower_char :: "char \<Rightarrow> char" where
  "lower_char c =
     (let n = (of_char c :: nat) in if 65 \<le> n \<and> n \<le> 90 then char_of (n + 32) else c)"

definition upper :: "string \<Rightarrow> string" where
  "upper s = map upper_char s"

definition lower :: "string \<Rightarrow> string" where
  "lower s = map lower_char s"

definition rstrip :: "string \<Rightarrow> string \<Rightarrow> string" where
  \<comment> \<open>\<open>s.rstrip(chars)\<close>: drop the trailing characters that occur in \<open>chars\<close>.\<close>
  "rstrip chars s = rev (dropWhile (\<lambda>c. c \<in> set chars) (rev s))"

section \<open>Path validation (utils/helpers.py: validate\_paths)\<close>

text \<open>
  The three \<open>ValueError\<close>s of \<open>validate_paths\<close>, told apart by their message.
\<close>

datatype validation_error = NotAbsolute | SameLocation | DriveRootForbidden

definition dangerous :: "string list" where
  \<comment> \<open>\<open>[f"{d}:\\" for d in "CDEFGHIJKLMNOPQRSTUVWXYZ"]\<close>\<close>
  "dangerous = map (\<lambda>d. [d, CHR '':'', backslash]) ''CDEFGHIJKLMNOPQRSTUVWXYZ''"

text \<open>
  \<open>Path.is_absolute\<close>, \<open>Path.resolve\<close> and \<open>str\<close> belong to pathlib and depend on
  the platform; they are parameters of the model.
\<close>

definition validate_paths ::
  "('p \<Rightarrow> bool) \<Rightarrow> ('p \<Rightarrow> 'p) \<Rightarrow> ('p \<Rightarrow> string) \<Rightarrow> 'p \<Rightarrow> 'p \<Rightarrow> validation_error + unit" where
  "validate_paths is_absolute resolve str_of src dst =
     (if \<not> is_absolute src \<or> \<not> is_absolute dst then Inl NotAbsolute
      else if resolve src = resolve dst then Inl SameLocation
      else
        let dst_clean = upper (rstrip [backslash, CHR ''/''] (str_of dst))
        in if dst_clean \<in> set (map upper dangerous) then Inl DriveRootForbidden
           else Inr ())"



section \<open>Shell patterns (fnmatch)\<close>

text \<open>
  \<open>fnmatch.fnmatch(name, pat)\<close> of the Python library: \<open>*\<close> matches any run of
  characters (the separator \<open>/\<close> included), \<open>?\<close> one character, \<open>[seq]\<close> one
  character of \<open>seq\<close>, \<open>[!seq]\<close> one character not in \<open>seq\<close>; a bracket that is never
  closed is a literal character. The whole name has to match. Both arguments first go
  through \<open>os.path.normcase\<close>, which is the identity on POSIX and folds the case on
  Windows: it is a parameter.
\<close>

fun bracket_scan :: "string \<Rightarrow> nat \<Rightarrow> nat option" where
  \<comment> \<open>the index of the first \<open>]\<close> at or after position \<open>j\<close>\<close>
  "bracket_scan [] j = None"
| "bracket_scan (c # cs) j =
     (if c = CHR '']'' then Some j else bracket_scan cs (Suc j))"

definition bracket_end :: "string \<Rightarrow> nat option" where
  \<comment> \<open>for the text after \<open>[\<close>: the index of the closing bracket; a leading \<open>!\<close> and a
      \<open>]\<close> that comes first belong to the set\<close>
  "bracket_end ps =
     (let j1 = (if ps \<noteq> [] \<and> hd ps = CHR ''!'' then 1 else 0);
          j2 = (if j1 < length ps \<and> ps ! j1 = CHR '']'' then Suc j1 else j1)
      in bracket_scan (drop j2 ps) j2)"

fun in_items :: "string \<Rightarrow> char \<Rightarrow> bool" where
  \<comment> \<open>membership in the body of a bracket: \<open>a-z\<close> is a range, anything else a character\<close>
  "in_items [] c = False"
| "in_items (a # m # b # rest) c =
     (if m = CHR ''-'' then ((of_char a :: nat) \<le> of_char c \<and> (of_char c :: nat) \<le> of_char b)
                          \<or> in_items rest c
      else c = a \<or> in_items (m # b # rest) c)"
| "in_items (a # rest) c = (c = a \<or> in_items rest c)"

definition class_match :: "string \<Rightarrow> char \<Rightarrow> bool" where
  "class_match stuff c =
     (if stuff \<noteq> [] \<and> hd stuff = CHR ''!'' then \<not> in_items (tl stuff) c
      else in_items stuff c)"

fun glob_match :: "string \<Rightarrow> string \<Rightarrow> bool" where
  "glob_match [] s = (s = [])"
| "glob_match (p # ps) [] = (p = CHR ''*'' \<and> glob_match ps [])"
| "glob_match (p # ps) (c # cs) =
     (if p = CHR ''*'' then glob_match ps (c # cs) \<or> glob_match (p # ps) cs
      else if p = CHR ''?'' then glob_match ps cs
      else if p = CHR ''['' then
        (case bracket_end ps of
           None \<Rightarrow> c = CHR ''['' \<and> glob_match ps cs
         | Some j \<Rightarrow> class_match (take j ps) c \<and> glob_match (drop (Suc j) ps) cs)
      else c = p \<and> glob_match ps cs)"

definition fnmatch :: "(string \<Rightarrow> string) \<Rightarrow> string \<Rightarrow> string \<Rightarrow> bool" where
  "fnmatch nc nm pat = glob_match (nc pat) (nc nm)"

section \<open>Paths and the exclusion test (utils/helpers.py: is\_excluded)\<close>

text \<open>
  A path of the filesystem model is the list of its components from the root.
\<close>

type_synonym path = "string list"

definition relative_to :: "path \<Rightarrow> path \<Rightarrow> path option" where
  \<comment> \<open>\<open>path.relative_to(base)\<close>; \<open>None\<close> is the \<open>ValueError\<close>\<close>
  "relative_to p base = (if prefix base p then Some (drop (length base) p) else None)"

fun join_posix :: "path \<Rightarrow> string" where
  "join_posix [] = []"
| "join_posix [c] = c"
| "join_posix (c # cs) = c @ ''/'' @ join_posix cs"

definition as_posix :: "path \<Rightarrow> string" where
  \<comment> \<open>of a relative path; the empty relative path prints as a dot\<close>
  "as_posix rel = (if rel = [] then ''.'' else join_posix rel)"

definition is_excluded :: "(string \<Rightarrow> string) \<Rightarrow> path \<Rightarrow> string list \<Rightarrow> path \<Rightarrow> bool" where
  "is_excluded nc p exclude_patterns base_path =
     (case relative_to p base_path of
        None \<Rightarrow> False
      | Some rel \<Rightarrow>
          (let rel_path = as_posix rel
           in list_ex (\<lambda>pattern. fnmatch nc rel_path pattern
                                 \<or> fnmatch nc rel_path (''**/'' @ pattern))
                      exclude_patterns))"

section \<open>The filesystem\<close>

text \<open>
  A regular file has its content and its modification time (seconds, the float
  \<open>st_mtime\<close> read as a real number); its size is the length of the content. A
  directory has its entries in listing order. Sizes and timestamps of directories are not
  kept in the tree: the environment gives them.
\<close>

datatype node = File string real | Dir "(string \<times> node) list"

record stat_result =
  st_size :: nat
  st_mtime :: real

text \<open>
  The exceptions the operating system and \<open>shutil\<close> raise; all of them are
  \<open>OSError\<close>s.
\<close>

datatype exn =
    FileNotFoundError | FileExistsError | NotADirectoryError | IsADirectoryError
  | PermissionError | OSError | SameFileError | ShutilError

text \<open>
  A system call can fail for reasons the tree does not show (permissions, locks, a full or
  broken disk). The environment says which calls fail and how.
\<close>

datatype sysop =
    OpScandir path | OpMkdir path | OpStat path | OpCopy path path
  | OpUnlink path | OpRmdir path

record env =
  faults :: "sysop \<Rightarrow> exn option"
  normcase :: "string \<Rightarrow> string"
  dir_stat :: "path \<Rightarrow> stat_result"

fun lookup :: "node \<Rightarrow> path \<Rightarrow> node option" where
  "lookup n [] = Some n"
| "lookup n (c # cs) =
     (case n of
        File _ _ \<Rightarrow> None
      | Dir kids \<Rightarrow> (case map_of kids c of None \<Rightarrow> None | Some k \<Rightarrow> lookup k cs))"

fun put :: "node \<Rightarrow> path \<Rightarrow> node \<Rightarrow> node" where
  \<comment> \<open>store a node at a path whose parent is a directory; nothing changes otherwise\<close>
  "put n [] x = x"
| "put n (c # cs) x =
     (case n of
        File _ _ \<Rightarrow> n
      | Dir kids \<Rightarrow>
          (if cs = [] then Dir (AList.update c x kids)
           else (case map_of kids c of
                   None \<Rightarrow> n
                 | Some k \<Rightarrow> Dir (AList.update c (put k cs x) kids))))"

fun remove :: "node \<Rightarrow> path \<Rightarrow> node" where
  \<comment> \<open>take the entry at a path out of its directory; the root stays\<close>
  "remove n [] = n"
| "remove n (c # cs) =
     (case n of
        File _ _ \<Rightarrow> n
      | Dir kids \<Rightarrow>
          (if cs = [] then Dir (AList.delete c kids)
           else (case map_of kids c of
                   None \<Rightarrow> n
                 | Some k \<Rightarrow> Dir (AList.update c (remove k cs) kids))))"

definition exists :: "node \<Rightarrow> path \<Rightarrow> bool" where
  "exists r p = (lookup r p \<noteq> None)"

definition is_dir :: "node \<Rightarrow> path \<Rightarrow> bool" where
  "is_dir r p = (case lookup r p of Some (Dir _) \<Rightarrow> True | _ \<Rightarrow> False)"

definition is_file :: "node \<Rightarrow> path \<Rightarrow> bool" where
  "is_file r p = (case lookup r p of Some (File _ _) \<Rightarrow> True | _ \<Rightarrow> False)"

definition child_names :: "node \<Rightarrow> path \<Rightarrow> string list" where
  \<comment> \<open>the names of the entries of a directory; none for anything else\<close>
  "child_names r p = (case lookup r p of Some (Dir kids) \<Rightarrow> map fst kids | _ \<Rightarrow> [])"

definition stat :: "env \<Rightarrow> node \<Rightarrow> path \<Rightarrow> exn + stat_result" where
  "stat env r p =
     (case faults env (OpStat p) of
        Some e \<Rightarrow> Inl e
      | None \<Rightarrow>
          (case lookup r p of
             None \<Rightarrow> Inl FileNotFoundError
           | Some (File content mtime) \<Rightarrow> Inr \<lparr>st_size = length content, st_mtime = mtime\<rparr>
           | Some (Dir _) \<Rightarrow> Inr (dir_stat env p)))"

definition iterdir :: "env \<Rightarrow> node \<Rightarrow> path \<Rightarrow> exn + string list" where
  \<comment> \<open>the names in a directory, in listing order\<close>
  "iterdir env r p =
     (case faults env (OpScandir p) of
        Some e \<Rightarrow> Inl e
      | None \<Rightarrow>
          (case lookup r p of
             None \<Rightarrow> Inl FileNotFoundError
           | Some (File _ _) \<Rightarrow> Inl NotADirectoryError
           | Some (Dir kids) \<Rightarrow> Inr (map fst kids)))"

definition os_mkdir :: "env \<Rightarrow> node \<Rightarrow> path \<Rightarrow> exn + node" where
  \<comment> \<open>\<open>os.mkdir\<close>: one level\<close>
  "os_mkdir env r p =
     (case faults env (OpMkdir p) of
        Some e \<Rightarrow> Inl e
      | None \<Rightarrow>
          if exists r p then Inl FileExistsError
          else (case lookup r (butlast p) of
                  None \<Rightarrow> Inl FileNotFoundError
                | Some (File _ _) \<Rightarrow> Inl NotADirectoryError
                | Some (Dir _) \<Rightarrow> Inr (put r p (Dir []))))"

text \<open>
  \<open>Path.mkdir(parents=True, exist_ok=True)\<close>: try \<open>os.mkdir\<close>; on
  \<open>FileNotFoundError\<close> make the parent and try once more; any other error is dropped when
  the path is a directory by then. The result is the tree with what was created and the
  exception raised, if any.
\<close>

function mkdir_parents :: "env \<Rightarrow> node \<Rightarrow> path \<Rightarrow> node \<times> exn option" where
  "mkdir_parents env r p =
     (case os_mkdir env r p of
        Inr r' \<Rightarrow> (r', None)
      | Inl e \<Rightarrow>
          if e = FileNotFoundError then
            (if p = [] then (r, Some e)
             else (case mkdir_parents env r (butlast p) of
                     (r1, Some e1) \<Rightarrow> (r1, Some e1)
                   | (r1, None) \<Rightarrow>
                       (case os_mkdir env r1 p of
                          Inr r2 \<Rightarrow> (r2, None)
                        | Inl e2 \<Rightarrow>
                            if e2 = FileNotFoundError then (r1, Some e2)
                            else if is_dir r1 p then (r1, None) else (r1, Some e2))))
          else if is_dir r p then (r, None) else (r, Some e))"
  by pat_completeness auto
termination
  by (relation "measure (\<lambda>(env, r, p). length p)") auto

declare mkdir_parents.simps [simp del]

text \<open>
  \<open>os.makedirs(name, exist_ok=True)\<close>, which \<open>shutil.copytree\<close> calls: make the parent
  first when it does not exist, then \<open>os.mkdir\<close>.
\<close>

function makedirs :: "env \<Rightarrow> node \<Rightarrow> path \<Rightarrow> node \<times> exn option" where
  "makedirs env r p =
     (let (r1, e1) =
            (if p \<noteq> [] \<and> \<not> exists r (butlast p) then makedirs env r (butlast p)
             else (r, None))
      in if e1 \<noteq> None \<and> e1 \<noteq> Some FileExistsError then (r1, e1)
         else (case os_mkdir env r1 p of
                 Inr r2 \<Rightarrow> (r2, None)
               | Inl e \<Rightarrow> if is_dir r1 p then (r1, None) else (r1, Some e)))"
  by pat_completeness auto
termination
  by (relation "measure (\<lambda>(env, r, p). length p)") auto

declare makedirs.simps [simp del]

definition basename :: "path \<Rightarrow> path" where
  "basename p = (if p = [] then [] else [last p])"

text \<open>
  \<open>shutil.copy2(src, dst)\<close>: a destination that is a directory stands for the entry of
  the source's name inside it; content and modification time are copied. The copy is one
  step of the model: when it fails nothing is written.
\<close>

definition copy2 :: "env \<Rightarrow> node \<Rightarrow> path \<Rightarrow> path \<Rightarrow> node \<times> exn option" where
  "copy2 env r src dst =
     (let dst' = (if is_dir r dst then dst @ basename src else dst)
      in case faults env (OpCopy src dst') of
           Some e \<Rightarrow> (r, Some e)
         | None \<Rightarrow>
             (case lookup r src of
                None \<Rightarrow> (r, Some FileNotFoundError)
              | Some (Dir _) \<Rightarrow> (r, Some IsADirectoryError)
              | Some (File content mtime) \<Rightarrow>
                  if src = dst' then (r, Some SameFileError)
                  else if is_dir r dst' then (r, Some IsADirectoryError)
                  else if \<not> is_dir r (butlast dst') then (r, Some FileNotFoundError)
                  else (put r dst' (File content mtime), None)))"

text \<open>
  \<open>shutil.copytree(src, dst, dirs_exist_ok=True)\<close>: list the source, make the
  destination, copy entry by entry (a directory by a nested call, a file with
  \<open>copy2\<close>), go on after a failed entry and raise \<open>shutil.Error\<close> at the end when
  any entry failed. The nested calls read the tree as it is by then. The first argument
  bounds the nesting depth; \<open>None\<close> says the bound was reached.
\<close>

fun copytree_entries ::
  "(node \<Rightarrow> path \<Rightarrow> path \<Rightarrow> (node \<times> exn option) option) \<Rightarrow> env \<Rightarrow> path \<Rightarrow> path
   \<Rightarrow> (string \<times> bool) list \<Rightarrow> node \<Rightarrow> (node \<times> bool) option" where
  "copytree_entries rec env src dst [] r = Some (r, False)"
| "copytree_entries rec env src dst ((nm, isdir) # es) r =
     (case (if isdir then rec r (src @ [nm]) (dst @ [nm])
            else Some (copy2 env r (src @ [nm]) (dst @ [nm]))) of
        None \<Rightarrow> None
      | Some (r1, e) \<Rightarrow>
          (case copytree_entries rec env src dst es r1 of
             None \<Rightarrow> None
           | Some (r2, failed) \<Rightarrow> Some (r2, failed \<or> e \<noteq> None)))"

definition scandir :: "env \<Rightarrow> node \<Rightarrow> path \<Rightarrow> exn + (string \<times> bool) list" where
  \<comment> \<open>the entries of a directory, each with whether it is a directory\<close>
  "scandir env r p =
     (case faults env (OpScandir p) of
        Some e \<Rightarrow> Inl e
      | None \<Rightarrow>
          (case lookup r p of
             None \<Rightarrow> Inl FileNotFoundError
           | Some (File _ _) \<Rightarrow> Inl NotADirectoryError
           | Some (Dir kids) \<Rightarrow>
               Inr (map (\<lambda>(nm, k). (nm, case k of Dir _ \<Rightarrow> True | File _ _ \<Rightarrow> False)) kids)))"

primrec copytree :: "nat \<Rightarrow> env \<Rightarrow> node \<Rightarrow> path \<Rightarrow> path \<Rightarrow> (node \<times> exn option) option" where
  "copytree 0 env r src dst = None"
| "copytree (Suc n) env r src dst =
     (case scandir env r src of
        Inl e \<Rightarrow> Some (r, Some e)
      | Inr entries \<Rightarrow>
          (case makedirs env r dst of
             (r1, Some e) \<Rightarrow> Some (r1, Some e)
           | (r1, None) \<Rightarrow>
               (case copytree_entries (copytree n env) env src dst entries r1 of
                  None \<Rightarrow> None
                | Some (r2, failed) \<Rightarrow>
                    Some (r2, if failed then Some ShutilError else None))))"

text \<open>
  \<open>Path.unlink\<close> and \<open>shutil.rmtree\<close>. \<open>rmtree\<close> removes the entries of a directory
  in listing order, then the directory, and stops at the first failure: what was removed
  before stays removed.
\<close>

definition unlink :: "env \<Rightarrow> node \<Rightarrow> path \<Rightarrow> node \<times> exn option" where
  "unlink env r p =
     (case faults env (OpUnlink p) of
        Some e \<Rightarrow> (r, Some e)
      | None \<Rightarrow>
          (case lookup r p of
             None \<Rightarrow> (r, Some FileNotFoundError)
           | Some (Dir _) \<Rightarrow> (r, Some IsADirectoryError)
           | Some (File _ _) \<Rightarrow> (remove r p, None)))"

fun rmtree_node :: "env \<Rightarrow> path \<Rightarrow> node \<Rightarrow> node option \<times> exn option"
  and rmtree_kids :: "env \<Rightarrow> path \<Rightarrow> (string \<times> node) list \<Rightarrow> (string \<times> node) list \<times> exn option"
where
  "rmtree_node env p (File content mtime) = (Some (File content mtime), Some NotADirectoryError)"
| "rmtree_node env p (Dir kids) =
     (case faults env (OpScandir p) of
        Some e \<Rightarrow> (Some (Dir kids), Some e)
      | None \<Rightarrow>
          (case rmtree_kids env p kids of
             (kids', Some e) \<Rightarrow> (Some (Dir kids'), Some e)
           | (kids', None) \<Rightarrow>
               (case faults env (OpRmdir p) of
                  Some e \<Rightarrow> (Some (Dir kids'), Some e)
                | None \<Rightarrow> (None, None))))"
| "rmtree_kids env p [] = ([], None)"
| "rmtree_kids env p ((nm, k) # ks) =
     (case k of
        File _ _ \<Rightarrow>
          (case faults env (OpUnlink (p @ [nm])) of
             Some e \<Rightarrow> ((nm, k) # ks, Some e)
           | None \<Rightarrow> rmtree_kids env p ks)
      | Dir _ \<Rightarrow>
          (case rmtree_node env (p @ [nm]) k of
             (Some k', e) \<Rightarrow> ((nm, k') # ks, e)
           | (None, e) \<Rightarrow> rmtree_kids env p ks))"

definition rmtree :: "env \<Rightarrow> node \<Rightarrow> path \<Rightarrow> node \<times> exn option" where
  "rmtree env r p =
     (case lookup r p of
        None \<Rightarrow> (r, Some FileNotFoundError)
      | Some n \<Rightarrow>
          (case rmtree_node env p n of
             (Some n', e) \<Rightarrow> (put r p n', e)
           | (None, e) \<Rightarrow> if p = [] then (Dir [], Some PermissionError) else (remove r p, None)))"

section \<open>The equality test (utils/helpers.py: files\_are\_equal)\<close>

definition files_are_equal :: "env \<Rightarrow> node \<Rightarrow> path \<Rightarrow> path \<Rightarrow> exn + bool" where
  "files_are_equal env r file1 file2 =
     (if \<not> exists r file2 then Inr False
      else (case stat env r file1 of
              Inl e \<Rightarrow> Inl e
            | Inr stat1 \<Rightarrow>
                (case stat env r file2 of
                   Inl e \<Rightarrow> Inl e
                 | Inr stat2 \<Rightarrow>
                     Inr (st_size stat1 = st_size stat2
                          \<and> \<bar>st_mtime stat1 - st_mtime stat2\<bar> < 1))))"

section \<open>Tasks and metrics (core/backup\_task.py, utils/metrics.py)\<close>

definition DEFAULT_EXCLUDE_PATTERNS :: "string list" where
  "DEFAULT_EXCLUDE_PATTERNS =
     [''*.tmp'', ''*.log'', ''.git'', ''.gitignore'', ''__pycache__'', ''*.pyc'',
      ''.DS_Store'', ''Thumbs.db'', ''desktop.ini'', ''$RECYCLE.BIN'',
      ''System Volume Information'']"

record backup_task =
  name :: string
  source :: path
  destination :: path
  exclude_patterns :: "string list"
  delete_extra :: bool

record backup_metrics =
  start_time :: "real option"
  end_time :: "real option"
  total_files :: int
  copied_files :: int
  errors :: int

text \<open>
  \<open>BackupTask.__init__\<close>: the \<open>Path\<close> constructor is a parameter; an exclusion list
  that is absent or empty is replaced by the default patterns
  (\<open>exclude_patterns or DEFAULT_EXCLUDE_PATTERNS.copy()\<close>).
\<close>

definition BackupTask ::
  "(string \<Rightarrow> path) \<Rightarrow> string \<Rightarrow> string \<Rightarrow> string \<Rightarrow> string list option \<Rightarrow> bool \<Rightarrow> backup_task" where
  "BackupTask path_of nm src dst pats del =
     \<lparr>name = nm, source = path_of src, destination = path_of dst,
      exclude_patterns =
        (case pats of
           None \<Rightarrow> DEFAULT_EXCLUDE_PATTERNS
         | Some ps \<Rightarrow> if ps = [] then DEFAULT_EXCLUDE_PATTERNS else ps),
      delete_extra = del\<rparr>"

definition str_bool :: "bool \<Rightarrow> string" where
  "str_bool b = (if b then ''True'' else ''False'')"

datatype task_error = KeyError string | JSONDecodeError

text \<open>
  \<open>to_dict\<close> and \<open>from_dict\<close>. \<open>str\<close> on a path and the two functions of the
  \<open>json\<close> library are parameters; \<open>json_loads\<close> gives the decoded list of strings or
  fails.
\<close>

definition to_dict ::
  "(path \<Rightarrow> string) \<Rightarrow> (string list \<Rightarrow> string) \<Rightarrow> backup_task \<Rightarrow> (string \<rightharpoonup> string)" where
  "to_dict path_str json_dumps t =
     [''name'' \<mapsto> name t,
      ''source'' \<mapsto> path_str (source t),
      ''destination'' \<mapsto> path_str (destination t),
      ''exclude_patterns'' \<mapsto> json_dumps (exclude_patterns t),
      ''delete_extra'' \<mapsto> str_bool (delete_extra t)]"

definition dict_get :: "(string \<rightharpoonup> string) \<Rightarrow> string \<Rightarrow> string \<Rightarrow> string" where
  \<comment> \<open>\<open>data.get(key, default)\<close>\<close>
  "dict_get data k d = (case data k of None \<Rightarrow> d | Some v \<Rightarrow> v)"

definition from_dict ::
  "(string \<Rightarrow> path) \<Rightarrow> (string \<Rightarrow> task_error + string list) \<Rightarrow> (string \<rightharpoonup> string)
   \<Rightarrow> task_error + backup_task" where
  "from_dict path_of json_loads data =
     (case data ''name'' of
        None \<Rightarrow> Inl (KeyError ''name'')
      | Some nm \<Rightarrow>
     (case data ''source'' of
        None \<Rightarrow> Inl (KeyError ''source'')
      | Some src \<Rightarrow>
     (case data ''destination'' of
        None \<Rightarrow> Inl (KeyError ''destination'')
      | Some dst \<Rightarrow>
     (case json_loads (dict_get data ''exclude_patterns'' ''[]'') of
        Inl e \<Rightarrow> Inl e
      | Inr pats \<Rightarrow>
          Inr (BackupTask path_of nm src dst (Some pats)
                 (lower (dict_get data ''delete_extra'' ''True'') = ''true''))))))"

section \<open>The mirror run (core/sync\_logic.py)\<close>

text \<open>
  The two callbacks are recorded in a trace: a log line with what it reports, and a call
  of \<open>update_progress\<close> with the metrics as they are when it is called.
\<close>

datatype message =
    SourceMissing path | NoAccess path path | AccessError path path
  | Copied path path | CopyError path path | Removed path | RemoveError path

datatype event = Log message | Progress backup_metrics

record state =
  fs :: node
  metrics :: backup_metrics
  trace :: "event list"

datatype outcome = Returned | Raised exn

definition log_callback :: "message \<Rightarrow> state \<Rightarrow> state" where
  "log_callback m st = st\<lparr>trace := trace st @ [Log m]\<rparr>"

definition update_progress :: "state \<Rightarrow> state" where
  "update_progress st = st\<lparr>trace := trace st @ [Progress (metrics st)]\<rparr>"

definition count_copied :: "state \<Rightarrow> state" where
  \<comment> \<open>\<open>metrics.copied_files += 1\<close>\<close>
  "count_copied st = st\<lparr>metrics := (metrics st)\<lparr>copied_files := copied_files (metrics st) + 1\<rparr>\<rparr>"

definition count_error :: "state \<Rightarrow> state" where
  \<comment> \<open>\<open>metrics.errors += 1\<close>\<close>
  "count_error st = st\<lparr>metrics := (metrics st)\<lparr>errors := errors (metrics st) + 1\<rparr>\<rparr>"

text \<open>
  Reading a trace: the calls of \<open>update_progress\<close> and the log lines that report a
  failed copy or a failed removal. Two states of a run are \<open>accounted\<close> when the later
  trace extends the earlier one, \<open>copied_files\<close> has grown by the number of new calls of
  \<open>update_progress\<close> and \<open>errors\<close> by the number of new failure lines.
\<close>

fun is_progress :: "event \<Rightarrow> bool" where
  "is_progress (Progress m) = True"
| "is_progress (Log m) = False"

fun is_failure :: "event \<Rightarrow> bool" where
  "is_failure (Log (CopyError src dst)) = True"
| "is_failure (Log (RemoveError p)) = True"
| "is_failure ev = False"

definition accounted :: "state \<Rightarrow> state \<Rightarrow> bool" where
  "accounted st st' =
     (let evs = drop (length (trace st)) (trace st') in
      trace st' = trace st @ evs
      \<and> copied_files (metrics st') = copied_files (metrics st) + int (length (filter is_progress evs))
      \<and> errors (metrics st') = errors (metrics st) + int (length (filter is_failure evs)))"

text \<open>
  \<open>safe_copy\<close>: everything raised inside is caught, logged and counted. The bound on the
  nesting of \<open>copytree\<close> is the first argument.
\<close>

definition safe_copy :: "nat \<Rightarrow> env \<Rightarrow> path \<Rightarrow> path \<Rightarrow> state \<Rightarrow> state option" where
  "safe_copy n env src dst st =
     (case mkdir_parents env (fs st) (butlast dst) of
        (r1, Some e) \<Rightarrow> Some (count_error (log_callback (CopyError src dst) (st\<lparr>fs := r1\<rparr>)))
      | (r1, None) \<Rightarrow>
          if is_dir r1 src then
            (case copytree n env r1 src dst of
               None \<Rightarrow> None
             | Some (r2, Some e) \<Rightarrow>
                 Some (count_error (log_callback (CopyError src dst) (st\<lparr>fs := r2\<rparr>)))
             | Some (r2, None) \<Rightarrow> Some (log_callback (Copied src dst) (st\<lparr>fs := r2\<rparr>)))
          else
            (case copy2 env r1 src dst of
               (r2, Some e) \<Rightarrow>
                 Some (count_error (log_callback (CopyError src dst) (st\<lparr>fs := r2\<rparr>)))
             | (r2, None) \<Rightarrow>
                 Some (log_callback (Copied src dst)
                        (update_progress (count_copied (st\<lparr>fs := r2\<rparr>))))))"

definition safe_remove :: "env \<Rightarrow> path \<Rightarrow> state \<Rightarrow> state" where
  "safe_remove env p st =
     (case (if is_dir (fs st) p then rmtree env (fs st) p else unlink env (fs st) p) of
        (r1, Some e) \<Rightarrow> count_error (log_callback (RemoveError p) (st\<lparr>fs := r1\<rparr>))
      | (r1, None) \<Rightarrow> log_callback (Removed p) (st\<lparr>fs := r1\<rparr>))"

text \<open>
  One round of the loop over the source's entries. \<open>rec\<close> is the recursive call of
  \<open>sync_recursive\<close> as the source writes it; an exception that \<open>files_are_equal\<close>
  raises is not caught.
\<close>

definition sync_item ::
  "(state \<Rightarrow> (outcome \<times> state) option) \<Rightarrow> nat \<Rightarrow> env \<Rightarrow> path \<Rightarrow> path \<Rightarrow> string list
   \<Rightarrow> string \<Rightarrow> state \<Rightarrow> (outcome \<times> state) option" where
  "sync_item rec n env src dst dst_items nm st =
     (let src_path = src @ [nm]; dst_path = dst @ [nm] in
      if nm \<notin> set dst_items then
        map_option (Pair Returned) (safe_copy n env src_path dst_path st)
      else
        let existing_dst = dst @ [nm] in
        if is_dir (fs st) src_path \<and> is_dir (fs st) existing_dst then rec st
        else if is_file (fs st) src_path \<and> is_file (fs st) existing_dst then
          (case files_are_equal env (fs st) src_path existing_dst of
             Inl e \<Rightarrow> Some (Raised e, st)
           | Inr eq \<Rightarrow>
               if \<not> eq then map_option (Pair Returned) (safe_copy n env src_path dst_path st)
               else Some (Returned, st))
        else
          map_option (Pair Returned)
            (safe_copy n env src_path dst_path (safe_remove env existing_dst st)))"

fun sync_items ::
  "(state \<Rightarrow> (outcome \<times> state) option) \<Rightarrow> nat \<Rightarrow> env \<Rightarrow> path \<Rightarrow> path \<Rightarrow> string list
   \<Rightarrow> string list \<Rightarrow> state \<Rightarrow> (outcome \<times> state) option" where
  "sync_items rec n env src dst dst_items [] st = Some (Returned, st)"
| "sync_items rec n env src dst dst_items (nm # rest) st =
     (case sync_item rec n env src dst dst_items nm st of
        None \<Rightarrow> None
      | Some (Raised e, st1) \<Rightarrow> Some (Raised e, st1)
      | Some (Returned, st1) \<Rightarrow> sync_items rec n env src dst dst_items rest st1)"

fun remove_extra :: "env \<Rightarrow> path \<Rightarrow> string list \<Rightarrow> string list \<Rightarrow> state \<Rightarrow> state" where
  \<comment> \<open>the deletion pass over the listing of the destination\<close>
  "remove_extra env dst src_items [] st = st"
| "remove_extra env dst src_items (nm # rest) st =
     remove_extra env dst src_items rest
       (if nm \<notin> set src_items then safe_remove env (dst @ [nm]) st else st)"

definition listing ::
  "env \<Rightarrow> node \<Rightarrow> path \<Rightarrow> path \<Rightarrow> string list \<Rightarrow> exn + (string list \<times> string list)" where
  \<comment> \<open>\<open>src_items\<close> (filtered by the exclusion test) and \<open>dst_items\<close>, in this order\<close>
  "listing env r src dst pats =
     (case iterdir env r src of
        Inl e \<Rightarrow> Inl e
      | Inr names \<Rightarrow>
          (let src_items = filter (\<lambda>nm. \<not> is_excluded (normcase env) (src @ [nm]) pats src) names
           in case iterdir env r dst of
                Inl e \<Rightarrow> Inl e
              | Inr dst_items \<Rightarrow> Inr (src_items, dst_items)))"

text \<open>
  \<open>sync_recursive(task, metrics, log_callback, update_progress, should_delete)\<close>. The
  first argument bounds the nesting of the recursive calls; \<open>None\<close> says that the bound
  was reached, so that the run did not return within it. \<open>Raised e\<close> is an exception
  that leaves \<open>sync_recursive\<close>.
\<close>

primrec sync_recursive ::
  "nat \<Rightarrow> env \<Rightarrow> backup_task \<Rightarrow> bool \<Rightarrow> state \<Rightarrow> (outcome \<times> state) option" where
  "sync_recursive 0 env task should_delete st = None"
| "sync_recursive (Suc n) env task should_delete st =
     (let src = source task; dst = destination task; pats = exclude_patterns task in
      if \<not> exists (fs st) src then Some (Returned, log_callback (SourceMissing src) st)
      else
        (case mkdir_parents env (fs st) dst of
           (r1, Some e) \<Rightarrow> Some (Raised e, st\<lparr>fs := r1\<rparr>)
         | (r1, None) \<Rightarrow>
             (let st1 = st\<lparr>fs := r1\<rparr> in
              case listing env r1 src dst pats of
                Inl e \<Rightarrow>
                  Some (Returned,
                        log_callback (if e = PermissionError then NoAccess src dst
                                      else AccessError src dst) st1)
              | Inr (src_items, dst_items) \<Rightarrow>
                  (case sync_items (sync_recursive n env task should_delete) n env src dst
                          dst_items src_items st1 of
                     None \<Rightarrow> None
                   | Some (Raised e, st2) \<Rightarrow> Some (Raised e, st2)
                   | Some (Returned, st2) \<Rightarrow>
                       Some (Returned,
                             if should_delete then remove_extra env dst src_items dst_items st2
                             else st2)))))"

section \<open>Environments and states for concrete runs\<close>

definition posix_env :: env where
  \<comment> \<open>no system call fails; \<open>normcase\<close> is the identity\<close>
  "posix_env = \<lparr>faults = (\<lambda>_. None), normcase = id,
                 dir_stat = (\<lambda>_. \<lparr>st_size = 4096, st_mtime = 0\<rparr>)\<rparr>"

definition BackupMetrics :: backup_metrics where
  \<comment> \<open>\<open>BackupMetrics.__init__\<close>\<close>
  "BackupMetrics = \<lparr>start_time = None, end_time = None, total_files = 0,
                    copied_files = 0, errors = 0\<rparr>"

definition start_state :: "node \<Rightarrow> state" where
  "start_state r = \<lparr>fs = r, metrics = BackupMetrics, trace = []\<rparr>"

text \<open>
  A source with \<open>x.txt\<close> (10 bytes) and \<open>logs/a.log\<close>, an empty destination, and the
  task that mirrors one onto the other without \<open>*.log\<close>.
\<close>

definition tree_logs :: node where
  "tree_logs =
     Dir [(''src'', Dir [(''x.txt'', File ''0123456789'' 100),
                         (''logs'', Dir [(''a.log'', File ''started'' 200)])]),
          (''dst'', Dir [])]"

definition task_logs :: backup_task where
  "task_logs = \<lparr>name = ''logs'', source = [''src''], destination = [''dst''],
                 exclude_patterns = [''*.log''], delete_extra = True\<rparr>"

text \<open>
  A source with \<open>docs/a.txt\<close>: once with the directory \<open>docs\<close> already at the
  destination, once with an empty destination.
\<close>

definition tree_nested :: node where
  "tree_nested =
     Dir [(''src'', Dir [(''docs'', Dir [(''a.txt'', File ''abc'' 100)])]),
          (''dst'', Dir [(''docs'', Dir [])])]"

definition tree_docs :: node where
  "tree_docs =
     Dir [(''src'', Dir [(''docs'', Dir [(''a.txt'', File ''abc'' 100)])]),
          (''dst'', Dir [])]"

definition task_docs :: backup_task where
  "task_docs = \<lparr>name = ''docs'', source = [''src''], destination = [''dst''],
                 exclude_patterns = [''*.tmp''], delete_extra = True\<rparr>"

text \<open>
  A destination with a file \<open>stale.bin\<close> that the source does not have, and a task that
  keeps what is extra at the destination.
\<close>

definition tree_stale :: node where
  "tree_stale =
     Dir [(''src'', Dir [(''a.txt'', File ''abc'' 100)]),
          (''dst'', Dir [(''stale.bin'', File ''old bytes'' 50)])]"

definition task_keep :: backup_task where
  "task_keep = \<lparr>name = ''keep'', source = [''src''], destination = [''dst''],
                 exclude_patterns = [''*.tmp''], delete_extra = False\<rparr>"

text \<open>
  A destination that holds, beside the file of the source, a log file and a directory
  that the source does not have.
\<close>

definition tree_extra :: node where
  "tree_extra =
     Dir [(''src'', Dir [(''a.txt'', File ''abc'' 100)]),
          (''dst'', Dir [(''a.txt'', File ''abc'' 100),
                         (''old.log'', File ''last year'' 10),
                         (''cache'', Dir [(''tmp.bin'', File ''xy'' 20)])])]"

text \<open>
  An environment in which the listed system calls fail with \<open>PermissionError\<close>, and
  trees for runs that meet a failure: a destination path that is a regular file, and a
  file present on both sides.
\<close>

definition failing_env :: "sysop list \<Rightarrow> env" where
  "failing_env ops =
     posix_env\<lparr>faults := (\<lambda>op. if op \<in> set ops then Some PermissionError else None)\<rparr>"

definition tree_blocked :: node where
  "tree_blocked =
     Dir [(''src'', Dir [(''a.txt'', File ''abc'' 100)]),
          (''dst'', File ''not a directory'' 1)]"

definition tree_both :: node where
  "tree_both =
     Dir [(''src'', Dir [(''a.txt'', File ''abc'' 100), (''b.txt'', File ''xyz'' 300)]),
          (''dst'', Dir [(''a.txt'', File ''abc'' 100), (''gone.txt'', File ''q'' 5)])]"

section \<open>The earlier single-file program (app1.py)\<close>

text \<open>
  \<open>app1.py\<close> has its own \<open>safe_copy\<close>, \<open>safe_remove\<close> and \<open>sync_recursive\<close>. It
  keeps no metrics: a copied file is counted in the global \<open>progress_info\<close>. Its
  \<open>sync_recursive\<close> takes the two directories instead of the task, and catches
  \<open>PermissionError\<close> only when it lists them.
\<close>

record app1_state =
  app1_fs :: node
  processed_files :: int
  current_file :: string
  app1_trace :: "message list"
  progress_calls :: nat

definition app1_log :: "message \<Rightarrow> app1_state \<Rightarrow> app1_state" where
  "app1_log m st = st\<lparr>app1_trace := app1_trace st @ [m]\<rparr>"

definition app1_safe_remove :: "env \<Rightarrow> path \<Rightarrow> app1_state \<Rightarrow> app1_state" where
  "app1_safe_remove env p st =
     (case (if is_dir (app1_fs st) p then rmtree env (app1_fs st) p
            else unlink env (app1_fs st) p) of
        (r1, Some e) \<Rightarrow> app1_log (RemoveError p) (st\<lparr>app1_fs := r1\<rparr>)
      | (r1, None) \<Rightarrow> app1_log (Removed p) (st\<lparr>app1_fs := r1\<rparr>))"

definition app1_safe_copy :: "nat \<Rightarrow> env \<Rightarrow> path \<Rightarrow> path \<Rightarrow> app1_state \<Rightarrow> app1_state option" where
  "app1_safe_copy n env src dst st =
     (case mkdir_parents env (app1_fs st) (butlast dst) of
        (r1, Some e) \<Rightarrow> Some (app1_log (CopyError src dst) (st\<lparr>app1_fs := r1\<rparr>))
      | (r1, None) \<Rightarrow>
          if is_dir r1 src then
            (case copytree n env r1 src dst of
               None \<Rightarrow> None
             | Some (r2, Some e) \<Rightarrow> Some (app1_log (CopyError src dst) (st\<lparr>app1_fs := r2\<rparr>))
             | Some (r2, None) \<Rightarrow> Some (app1_log (Copied src dst) (st\<lparr>app1_fs := r2\<rparr>)))
          else
            (case copy2 env r1 src dst of
               (r2, Some e) \<Rightarrow> Some (app1_log (CopyError src dst) (st\<lparr>app1_fs := r2\<rparr>))
             | (r2, None) \<Rightarrow>
                 Some (app1_log (Copied src dst)
                        (st\<lparr>app1_fs := r2,
                            processed_files := processed_files st + 1,
                            current_file := concat (basename src),
                            progress_calls := Suc (progress_calls st)\<rparr>))))"

definition app1_sync_item ::
  "(path \<Rightarrow> path \<Rightarrow> app1_state \<Rightarrow> (outcome \<times> app1_state) option) \<Rightarrow> nat \<Rightarrow> env \<Rightarrow> path \<Rightarrow> path
   \<Rightarrow> string list \<Rightarrow> string \<Rightarrow> app1_state \<Rightarrow> (outcome \<times> app1_state) option" where
  "app1_sync_item rec n env src dst dst_items nm st =
     (let src_path = src @ [nm]; dst_path = dst @ [nm] in
      if nm \<notin> set dst_items then
        map_option (Pair Returned) (app1_safe_copy n env src_path dst_path st)
      else
        let existing_dst = dst @ [nm] in
        if is_dir (app1_fs st) src_path \<and> is_dir (app1_fs st) existing_dst then
          rec src_path existing_dst st
        else if is_file (app1_fs st) src_path \<and> is_file (app1_fs st) existing_dst then
          (case files_are_equal env (app1_fs st) src_path existing_dst of
             Inl e \<Rightarrow> Some (Raised e, st)
           | Inr eq \<Rightarrow>
               if \<not> eq then map_option (Pair Returned) (app1_safe_copy n env src_path dst_path st)
               else Some (Returned, st))
        else
          map_option (Pair Returned)
            (app1_safe_copy n env src_path dst_path (app1_safe_remove env existing_dst st)))"

fun app1_sync_items ::
  "(path \<Rightarrow> path \<Rightarrow> app1_state \<Rightarrow> (outcome \<times> app1_state) option) \<Rightarrow> nat \<Rightarrow> env \<Rightarrow> path \<Rightarrow> path
   \<Rightarrow> string list \<Rightarrow> string list \<Rightarrow> app1_state \<Rightarrow> (outcome \<times> app1_state) option" where
  "app1_sync_items rec n env src dst dst_items [] st = Some (Returned, st)"
| "app1_sync_items rec n env src dst dst_items (nm # rest) st =
     (case app1_sync_item rec n env src dst dst_items nm st of
        None \<Rightarrow> None
      | Some (Raised e, st1) \<Rightarrow> Some (Raised e, st1)
      | Some (Returned, st1) \<Rightarrow> app1_sync_items rec n env src dst dst_items rest st1)"

fun app1_remove_extra :: "env \<Rightarrow> path \<Rightarrow> string list \<Rightarrow> string list \<Rightarrow> app1_state \<Rightarrow> app1_state" where
  "app1_remove_extra env dst src_items [] st = st"
| "app1_remove_extra env dst src_items (nm # rest) st =
     app1_remove_extra env dst src_items rest
       (if nm \<notin> set src_items then app1_safe_remove env (dst @ [nm]) st else st)"

primrec app1_sync_recursive ::
  "nat \<Rightarrow> env \<Rightarrow> path \<Rightarrow> path \<Rightarrow> string list \<Rightarrow> bool \<Rightarrow> app1_state
   \<Rightarrow> (outcome \<times> app1_state) option" where
  "app1_sync_recursive 0 env src dst pats should_delete st = None"
| "app1_sync_recursive (Suc n) env src dst pats should_delete st =
     (if \<not> exists (app1_fs st) src then Some (Returned, app1_log (SourceMissing src) st)
      else
        (case mkdir_parents env (app1_fs st) dst of
           (r1, Some e) \<Rightarrow> Some (Raised e, st\<lparr>app1_fs := r1\<rparr>)
         | (r1, None) \<Rightarrow>
             (let st1 = st\<lparr>app1_fs := r1\<rparr> in
              case listing env r1 src dst pats of
                Inl e \<Rightarrow>
                  if e = PermissionError then Some (Returned, app1_log (NoAccess src dst) st1)
                  else Some (Raised e, st1)
              | Inr (src_items, dst_items) \<Rightarrow>
                  (case app1_sync_items
                          (\<lambda>s d. app1_sync_recursive n env s d pats should_delete)
                          n env src dst dst_items src_items st1 of
                     None \<Rightarrow> None
                   | Some (Raised e, st2) \<Rightarrow> Some (Raised e, st2)
                   | Some (Returned, st2) \<Rightarrow>
                       Some (Returned,
                             if should_delete
                             then app1_remove_extra env dst src_items dst_items st2
                             else st2)))))"

definition app1_start :: "node \<Rightarrow> app1_state" where
  "app1_start r = \<lparr>app1_fs = r, processed_files = 0, current_file = [], app1_trace = [],
                  progress_calls = 0\<rparr>"

section \<open>Evaluating concrete runs\<close>

lemmas run_eval = posix_env_def start_state_def BackupMetrics_def exists_def is_dir_def
  is_file_def iterdir_def scandir_def listing_def os_mkdir_def sync_item_def Let_def
  is_excluded_def relative_to_def as_posix_def fnmatch_def safe_copy_def safe_remove_def
  copy2_def unlink_def rmtree_def basename_def log_callback_def update_progress_def
  count_copied_def count_error_def mkdir_parents.simps makedirs.simps

lemmas app1_eval = app1_start_def app1_sync_item_def app1_safe_copy_def app1_safe_remove_def
  app1_log_def

section \<open>Which paths an operation can change\<close>

lemma lookup_append:
  "lookup r (p @ q) = (case lookup r p of None \<Rightarrow> None | Some n \<Rightarrow> lookup n q)"
  by (induction p arbitrary: r) (auto split: node.splits option.splits)

lemma lookup_put_parallel:
  "p \<parallel> q \<Longrightarrow> lookup (put r p x) q = lookup r q"
proof (induction p arbitrary: r q)
  case Nil
  then show ?case by simp
next
  case (Cons c cs)
  then obtain d ds where q: "q = d # ds" by (cases q) auto
  show ?case
  proof (cases r)
    case (File content mtime)
    then show ?thesis by simp
  next
    case (Dir kids)
    show ?thesis
    proof (cases "d = c")
      case True
      with Cons.prems q have par: "cs \<parallel> ds" by (auto simp: parallel_def)
      then have "cs \<noteq> []" by auto
      with Dir q True Cons.IH [OF par] show ?thesis
        by (auto simp: update_conv' split: option.splits)
    next
      case False
      with Dir q show ?thesis
        by (auto simp: update_conv' split: option.splits)
    qed
  qed
qed

lemma lookup_remove_parallel:
  "p \<parallel> q \<Longrightarrow> lookup (remove r p) q = lookup r q"
proof (induction p arbitrary: r q)
  case Nil
  then show ?case by simp
next
  case (Cons c cs)
  then obtain d ds where q: "q = d # ds" by (cases q) auto
  show ?case
  proof (cases r)
    case (File content mtime)
    then show ?thesis by simp
  next
    case (Dir kids)
    show ?thesis
    proof (cases "d = c")
      case True
      with Cons.prems q have par: "cs \<parallel> ds" by (auto simp: parallel_def)
      then have "cs \<noteq> []" by auto
      with Dir q True Cons.IH [OF par] show ?thesis
        by (auto simp: update_conv' split: option.splits)
    next
      case False
      with Dir q show ?thesis
        by (auto simp: update_conv' delete_conv' split: option.splits)
    qed
  qed
qed

text \<open>below the removed path nothing is left\<close>
lemma lookup_remove_below:
  "p \<noteq> [] \<Longrightarrow> lookup (remove r p) (p @ q) = None"
proof (induction p arbitrary: r)
  case Nil
  then show ?case by simp
next
  case (Cons c cs)
  show ?case
  proof (cases r)
    case (File content mtime)
    then show ?thesis by simp
  next
    case (Dir kids)
    show ?thesis
    proof (cases "cs = []")
      case True
      with Dir show ?thesis by (simp add: delete_conv')
    next
      case False
      with Dir Cons.IH [OF False] show ?thesis
        by (auto simp: update_conv' split: option.splits)
    qed
  qed
qed

lemma lookup_put_below_new:
  "lookup r p = None \<Longrightarrow> q \<noteq> [] \<Longrightarrow> lookup (put r p (Dir [])) (p @ q) = None"
proof (induction p arbitrary: r)
  case Nil
  then show ?case by simp
next
  case (Cons c cs)
  show ?case
  proof (cases r)
    case (File content mtime)
    then show ?thesis by simp
  next
    case (Dir kids)
    show ?thesis
    proof (cases "cs = []")
      case True
      with Dir Cons.prems show ?thesis
        by (cases q) (auto simp: update_conv')
    next
      case False
      with Dir Cons.prems Cons.IH show ?thesis
        by (auto simp: update_conv' split: option.splits)
    qed
  qed
qed

lemma not_prefix_cases:
  assumes "\<not> prefix q p"
  obtains "p \<parallel> q" | rest where "q = p @ rest" "rest \<noteq> []"
  using assms by (metis parallel_def prefix_def prefix_order.dual_order.refl append_Nil2)

lemma os_mkdir_frame:
  assumes "os_mkdir env r p = Inr r'" and "\<not> prefix q p"
  shows "lookup r' q = lookup r q"
proof -
  from assms(1) have none: "lookup r p = None" and r': "r' = put r p (Dir [])"
    by (auto simp: os_mkdir_def exists_def split: option.splits if_splits node.splits)
  from assms(2) show ?thesis
  proof (cases rule: not_prefix_cases)
    case 1
    then show ?thesis by (simp add: r' lookup_put_parallel)
  next
    case (2 rest)
    with none have "lookup r' q = None"
      by (simp add: r' lookup_put_below_new)
    moreover from 2 none have "lookup r q = None"
      by (simp add: lookup_append)
    ultimately show ?thesis by simp
  qed
qed

lemma prefix_butlast: "prefix q (butlast p) \<Longrightarrow> prefix q p"
  by (metis prefix_order.trans prefixeq_butlast)

lemma mkdir_parents_frame:
  "mkdir_parents env r p = (r', e) \<Longrightarrow> \<not> prefix q p \<Longrightarrow> lookup r' q = lookup r q"
proof (induction env r p arbitrary: r' e rule: mkdir_parents.induct)
  case (1 env r p)
  note unfold = mkdir_parents.simps [of env r p]
  from "1.prems"(2) have nb: "\<not> prefix q (butlast p)" using prefix_butlast by blast
  show ?case
  proof (cases "os_mkdir env r p")
    case (Inr r2)
    with "1.prems" show ?thesis
      by (simp add: unfold os_mkdir_frame)
  next
    case (Inl e1)
    show ?thesis
    proof (cases "e1 = FileNotFoundError \<and> p \<noteq> []")
      case False
      with Inl "1.prems"(1) have "r' = r"
        by (auto simp: unfold split: if_splits)
      then show ?thesis by simp
    next
      case True
      obtain r1 e2 where rec: "mkdir_parents env r (butlast p) = (r1, e2)"
        by (cases "mkdir_parents env r (butlast p)")
      from True Inl have ih: "lookup r1 q = lookup r q"
        using "1.IH" [OF Inl _ _ rec nb] by simp
      show ?thesis
      proof (cases e2)
        case (Some e3)
        with True Inl rec "1.prems"(1) have "r' = r1" by (simp add: unfold)
        with ih show ?thesis by simp
      next
        case None
        show ?thesis
        proof (cases "os_mkdir env r1 p")
          case (Inr r3)
          with True Inl rec None "1.prems"(1) have "r' = r3" by (simp add: unfold)
          with Inr "1.prems"(2) ih show ?thesis
            by (simp add: os_mkdir_frame)
        next
          case (Inl e4)
          with True \<open>os_mkdir env r p = Inl e1\<close> rec None "1.prems"(1) have "r' = r1"
            by (auto simp: unfold split: if_splits)
          with ih show ?thesis by simp
        qed
      qed
    qed
  qed
qed

lemma makedirs_frame:
  "makedirs env r p = (r', e) \<Longrightarrow> \<not> prefix q p \<Longrightarrow> lookup r' q = lookup r q"
proof (induction env r p arbitrary: r' e rule: makedirs.induct)
  case (1 env r p)
  from "1.prems"(2) have nb: "\<not> prefix q (butlast p)" using prefix_butlast by blast
  define first where
    "first = (if p \<noteq> [] \<and> \<not> exists r (butlast p) then makedirs env r (butlast p) else (r, None))"
  obtain r1 e1 where f: "first = (r1, e1)" by (cases first)
  have ih: "lookup r1 q = lookup r q"
  proof (cases "p \<noteq> [] \<and> \<not> exists r (butlast p)")
    case True
    with f have "makedirs env r (butlast p) = (r1, e1)" by (simp add: first_def)
    from "1.IH" [OF True this nb] show ?thesis .
  next
    case False
    with f show ?thesis by (auto simp: first_def)
  qed
  have unfold: "makedirs env r p =
      (if e1 \<noteq> None \<and> e1 \<noteq> Some FileExistsError then (r1, e1)
       else (case os_mkdir env r1 p of
               Inr r2 \<Rightarrow> (r2, None)
             | Inl e \<Rightarrow> if is_dir r1 p then (r1, None) else (r1, Some e)))"
    using f unfolding first_def by (subst makedirs.simps) (simp add: Let_def)
  show ?case
  proof (cases "os_mkdir env r1 p")
    case (Inr r2)
    with unfold "1.prems"(1) have "r' = r1 \<or> r' = r2" by (auto split: if_splits)
    with Inr "1.prems"(2) ih show ?thesis
      by (auto simp: os_mkdir_frame)
  next
    case (Inl e2)
    with unfold "1.prems"(1) have "r' = r1" by (auto split: if_splits)
    with ih show ?thesis by simp
  qed
qed

lemma parallel_extend: "q \<parallel> p \<Longrightarrow> q \<parallel> p @ x"
  using parallel_append [of q p "[]" x] by simp

lemma parallel_not_prefix_butlast: "q \<parallel> p \<Longrightarrow> \<not> prefix q (butlast p)"
  using prefix_butlast by (auto simp: parallel_def)

lemma copy2_frame:
  assumes "copy2 env r src dst = (r', e)" and "q \<parallel> dst"
  shows "lookup r' q = lookup r q"
proof -
  define dst' where "dst' = (if is_dir r dst then dst @ basename src else dst)"
  from assms(2) have par: "dst' \<parallel> q"
    by (auto simp: dst'_def parallel_extend parallel_commute)
  from assms(1) have "r' = r \<or> (\<exists>c m. r' = put r dst' (File c m))"
    unfolding copy2_def dst'_def [symmetric] Let_def
    by (auto split: option.splits node.splits if_splits)
  with par show ?thesis
    by (auto simp: lookup_put_parallel)
qed

lemma copytree_entries_frame:
  assumes rec: "\<And>r nm r' e. rec r (src @ [nm]) (dst @ [nm]) = Some (r', e) \<Longrightarrow> lookup r' q = lookup r q"
    and "copytree_entries rec env src dst es r = Some (r', failed)" and "q \<parallel> dst"
  shows "lookup r' q = lookup r q"
  using assms(2)
proof (induction es arbitrary: r r' failed)
  case Nil
  then show ?case by simp
next
  case (Cons entry es)
  obtain nm isdir where entry: "entry = (nm, isdir)" by (cases entry)
  from Cons.prems entry obtain r1 e1 failed1 where
    step: "(if isdir then rec r (src @ [nm]) (dst @ [nm])
            else Some (copy2 env r (src @ [nm]) (dst @ [nm]))) = Some (r1, e1)"
    and rest: "copytree_entries rec env src dst es r1 = Some (r', failed1)"
    by (auto split: option.splits prod.splits)
  have "lookup r1 q = lookup r q"
  proof (cases isdir)
    case True
    with step rec show ?thesis by simp
  next
    case False
    with step have "copy2 env r (src @ [nm]) (dst @ [nm]) = (r1, e1)" by simp
    then show ?thesis
      using assms(3) by (rule copy2_frame [OF _ parallel_extend])
  qed
  with Cons.IH [OF rest] show ?case by simp
qed

lemma copytree_frame:
  "copytree n env r src dst = Some (r', e) \<Longrightarrow> q \<parallel> dst \<Longrightarrow> lookup r' q = lookup r q"
proof (induction n arbitrary: r src dst r' e)
  case 0
  then show ?case by simp
next
  case (Suc n)
  from Suc.prems(1) show ?case
  proof (cases "scandir env r src")
    case (Inl e1)
    with Suc.prems(1) show ?thesis by simp
  next
    case (Inr entries)
    obtain r1 e1 where mk: "makedirs env r dst = (r1, e1)" by (cases "makedirs env r dst")
    from Suc.prems(2) have "\<not> prefix q dst" by (simp add: parallel_def)
    with mk have f1: "lookup r1 q = lookup r q" by (rule makedirs_frame)
    show ?thesis
    proof (cases e1)
      case (Some e2)
      with Inr mk Suc.prems(1) f1 show ?thesis by simp
    next
      case None
      with Inr mk Suc.prems(1) obtain failed where
        es: "copytree_entries (copytree n env) env src dst entries r1 = Some (r', failed)"
        by (auto split: option.splits)
      have "lookup r' q = lookup r1 q"
      proof (rule copytree_entries_frame [OF _ es Suc.prems(2)])
        fix r nm r' e
        assume "copytree n env r (src @ [nm]) (dst @ [nm]) = Some (r', e)"
        then show "lookup r' q = lookup r q"
          using Suc.prems(2) by (rule Suc.IH [OF _ parallel_extend])
      qed
      with f1 show ?thesis by simp
    qed
  qed
qed

lemma unlink_frame:
  "unlink env r p = (r', e) \<Longrightarrow> q \<parallel> p \<Longrightarrow> lookup r' q = lookup r q"
  by (auto simp: unlink_def lookup_remove_parallel parallel_commute
      split: option.splits node.splits)

lemma rmtree_frame:
  assumes "rmtree env r p = (r', e)" and "q \<parallel> p"
  shows "lookup r' q = lookup r q"
proof -
  from assms(2) have "p \<noteq> []" by auto
  with assms(1) have "r' = r \<or> r' = remove r p \<or> (\<exists>n. r' = put r p n)"
    by (auto simp: rmtree_def split: option.splits prod.splits if_splits)
  with assms(2) show ?thesis
    by (auto simp: lookup_remove_parallel lookup_put_parallel parallel_commute)
qed

lemma fs_log_callback [simp]: "fs (log_callback m st) = fs st"
  by (simp add: log_callback_def)

lemma fs_count_error [simp]: "fs (count_error st) = fs st"
  by (simp add: count_error_def)

lemma fs_count_copied [simp]: "fs (count_copied st) = fs st"
  by (simp add: count_copied_def)

lemma fs_update_progress [simp]: "fs (update_progress st) = fs st"
  by (simp add: update_progress_def)

lemma safe_remove_frame:
  "q \<parallel> p \<Longrightarrow> lookup (fs (safe_remove env p st)) q = lookup (fs st) q"
proof -
  assume par: "q \<parallel> p"
  obtain r1 e where op: "(if is_dir (fs st) p then rmtree env (fs st) p else unlink env (fs st) p) = (r1, e)"
    by (cases "if is_dir (fs st) p then rmtree env (fs st) p else unlink env (fs st) p")
  then have "lookup r1 q = lookup (fs st) q"
    using par by (auto split: if_splits simp: rmtree_frame unlink_frame)
  moreover from op have "fs (safe_remove env p st) = r1"
    by (cases e) (simp_all add: safe_remove_def)
  ultimately show ?thesis by simp
qed

lemma safe_copy_frame:
  assumes "safe_copy n env src dst st = Some st'" and par: "q \<parallel> dst"
  shows "lookup (fs st') q = lookup (fs st) q"
proof -
  obtain r1 e1 where mk: "mkdir_parents env (fs st) (butlast dst) = (r1, e1)"
    by (cases "mkdir_parents env (fs st) (butlast dst)")
  from mk par have f1: "lookup r1 q = lookup (fs st) q"
    by (rule mkdir_parents_frame [OF _ parallel_not_prefix_butlast])
  show ?thesis
  proof (cases e1)
    case (Some e)
    with mk assms(1) have "fs st' = r1" by (auto simp: safe_copy_def)
    with f1 show ?thesis by simp
  next
    case None
    show ?thesis
    proof (cases "is_dir r1 src")
      case True
      with None mk assms(1) obtain r2 e2 where
        ct: "copytree n env r1 src dst = Some (r2, e2)" and "fs st' = r2"
        by (auto simp: safe_copy_def split: option.splits)
      with copytree_frame [OF ct par] f1 show ?thesis by simp
    next
      case False
      obtain r2 e2 where c2: "copy2 env r1 src dst = (r2, e2)" by (cases "copy2 env r1 src dst")
      with False None mk assms(1) have "fs st' = r2"
        by (cases e2) (auto simp: safe_copy_def)
      with copy2_frame [OF c2 par] f1 show ?thesis by simp
    qed
  qed
qed

section \<open>Exclusion and whole-directory copies\<close>

text \<open>
  C1. The claim is that an entry whose path relative to the source root matches an
  exclusion pattern is never copied, and that in the scenario with \<open>x.txt\<close>,
  \<open>logs/a.log\<close> and the pattern \<open>*.log\<close> the destination ends with \<open>x.txt\<close> only.
  In the code the exclusion test is applied to the entries of the source directory alone:
  \<open>logs\<close> is not excluded and is absent at the destination, so \<open>safe_copy\<close> copies the
  whole directory with \<open>copytree\<close>, and \<open>logs/a.log\<close>, which the test excludes, arrives
  at the destination. The counters are as the scenario says (one file counted, no error).
\<close>

theorem excluded_log_copied_with_directory:
  "is_excluded (normcase posix_env) [''src'', ''logs'', ''a.log'']
     (exclude_patterns task_logs) (source task_logs)
   \<and> sync_recursive (Suc (Suc n)) posix_env task_logs (delete_extra task_logs)
       (start_state tree_logs) =
     Some (Returned,
       \<lparr>fs = Dir [(''src'', Dir [(''x.txt'', File ''0123456789'' 100),
                                 (''logs'', Dir [(''a.log'', File ''started'' 200)])]),
                  (''dst'', Dir [(''x.txt'', File ''0123456789'' 100),
                                 (''logs'', Dir [(''a.log'', File ''started'' 200)])])],
        metrics = BackupMetrics\<lparr>copied_files := 1\<rparr>,
        trace = [Progress (BackupMetrics\<lparr>copied_files := 1\<rparr>),
                 Log (Copied [''src'', ''x.txt''] [''dst'', ''x.txt'']),
                 Log (Copied [''src'', ''logs''] [''dst'', ''logs''])]\<rparr>)"
  by (simp add: run_eval task_logs_def tree_logs_def)

theorem excluded_log_copied_with_directory_witness:
  "\<exists>st'. sync_recursive 3 posix_env task_logs True (start_state tree_logs) = Some (Returned, st')
     \<and> lookup (fs st') [''dst'', ''logs'', ''a.log''] = Some (File ''started'' 200)
     \<and> copied_files (metrics st') = 1 \<and> errors (metrics st') = 0"
proof -
  have "sync_recursive 3 posix_env task_logs True (start_state tree_logs)
          = sync_recursive (Suc (Suc 1)) posix_env task_logs (delete_extra task_logs)
              (start_state tree_logs)"
    by (simp add: eval_nat_numeral task_logs_def)
  then show ?thesis
    using excluded_log_copied_with_directory [of 1]
    by (simp add: BackupMetrics_def)
qed

section \<open>Properties of task serialisation\<close>

lemma lower_True: "lower ''True'' = ''true''"
  by code_simp

lemma lower_False: "lower ''False'' = ''false''"
  by code_simp

lemma lower_str_bool: "(lower (str_bool b) = ''true'') = b"
  by (cases b) (simp_all add: str_bool_def lower_True lower_False)

text \<open>
  C10. Serialising a task and reading it back gives the same name, source, destination
  and delete flag, and the same exclusion patterns when there are any; an empty list of
  patterns comes back as the default patterns. The \<open>json\<close> and \<open>pathlib\<close> functions
  are taken with what they guarantee on the task's own values.
\<close>

theorem from_dict_to_dict:
  fixes t :: backup_task
  assumes "json_loads (json_dumps (exclude_patterns t)) = Inr (exclude_patterns t)"
    and "path_of (path_str (source t)) = source t"
    and "path_of (path_str (destination t)) = destination t"
  shows "from_dict path_of json_loads (to_dict path_str json_dumps t) =
           Inr (t\<lparr>exclude_patterns :=
                  if exclude_patterns t = [] then DEFAULT_EXCLUDE_PATTERNS
                  else exclude_patterns t\<rparr>)"
  using assms
  by (simp add: from_dict_def to_dict_def dict_get_def BackupTask_def lower_str_bool)

theorem from_dict_to_dict_witness:
  "from_dict (\<lambda>s. [s]) (\<lambda>s. if s = ''[]'' then Inr [] else Inr [s])
     (to_dict concat (\<lambda>ps. if ps = [] then ''[]'' else concat ps)
        \<lparr>name = ''docs'', source = [''srv''], destination = [''backup''],
         exclude_patterns = [''*.log''], delete_extra = False\<rparr>)
   = Inr \<lparr>name = ''docs'', source = [''srv''], destination = [''backup''],
         exclude_patterns = [''*.log''], delete_extra = False\<rparr>
   \<and> from_dict (\<lambda>s. [s]) (\<lambda>s. if s = ''[]'' then Inr [] else Inr [s])
     (to_dict concat (\<lambda>ps. if ps = [] then ''[]'' else concat ps)
        \<lparr>name = ''all'', source = [''srv''], destination = [''backup''],
         exclude_patterns = [], delete_extra = True\<rparr>)
   = Inr \<lparr>name = ''all'', source = [''srv''], destination = [''backup''],
         exclude_patterns = DEFAULT_EXCLUDE_PATTERNS, delete_extra = True\<rparr>"
  using from_dict_to_dict [of "\<lambda>s. if s = ''[]'' then Inr [] else Inr [s]"
      "\<lambda>ps. if ps = [] then ''[]'' else concat ps"
      "\<lparr>name = ''docs'', source = [''srv''], destination = [''backup''],
        exclude_patterns = [''*.log''], delete_extra = False\<rparr>" "\<lambda>s. [s]" concat]
    from_dict_to_dict [of "\<lambda>s. if s = ''[]'' then Inr [] else Inr [s]"
      "\<lambda>ps. if ps = [] then ''[]'' else concat ps"
      "\<lparr>name = ''all'', source = [''srv''], destination = [''backup''],
        exclude_patterns = [], delete_extra = True\<rparr>" "\<lambda>s. [s]" concat]
  by simp

section \<open>The recursive call\<close>

text \<open>
  C2. The claim is that for a source directory that is also a directory at the
  destination the run recurses into that pair. \<open>sync_recursive\<close> of
  \<open>core/sync_logic.py\<close> calls itself with the task it was given, that is with the same
  source and destination, so with \<open>docs/a.txt\<close> in the source and an empty \<open>docs\<close> at
  the destination it never returns, whatever the bound on the nesting, and \<open>a.txt\<close> is
  never copied. \<open>sync_recursive\<close> of \<open>app1.py\<close> passes the pair of directories and
  copies \<open>a.txt\<close> into \<open>docs\<close>.
\<close>

theorem nested_pair_not_entered:
  "sync_recursive n posix_env task_docs (delete_extra task_docs) (start_state tree_nested) = None
   \<and> app1_sync_recursive (Suc (Suc n)) posix_env (source task_docs) (destination task_docs)
       (exclude_patterns task_docs) (delete_extra task_docs) (app1_start tree_nested) =
     Some (Returned,
       \<lparr>app1_fs = Dir [(''src'', Dir [(''docs'', Dir [(''a.txt'', File ''abc'' 100)])]),
                       (''dst'', Dir [(''docs'', Dir [(''a.txt'', File ''abc'' 100)])])],
        processed_files = 1, current_file = ''a.txt'',
        app1_trace = [Copied [''src'', ''docs'', ''a.txt''] [''dst'', ''docs'', ''a.txt'']],
        progress_calls = 1\<rparr>)"
proof
  show "sync_recursive n posix_env task_docs (delete_extra task_docs) (start_state tree_nested)
          = None"
  proof (induction n)
    case 0
    show ?case by simp
  next
    case (Suc n)
    then show ?case
      by (simp add: run_eval task_docs_def tree_nested_def)
  qed
  show "app1_sync_recursive (Suc (Suc n)) posix_env (source task_docs) (destination task_docs)
       (exclude_patterns task_docs) (delete_extra task_docs) (app1_start tree_nested) =
     Some (Returned,
       \<lparr>app1_fs = Dir [(''src'', Dir [(''docs'', Dir [(''a.txt'', File ''abc'' 100)])]),
                       (''dst'', Dir [(''docs'', Dir [(''a.txt'', File ''abc'' 100)])])],
        processed_files = 1, current_file = ''a.txt'',
        app1_trace = [Copied [''src'', ''docs'', ''a.txt''] [''dst'', ''docs'', ''a.txt'']],
        progress_calls = 1\<rparr>)"
    by (simp add: run_eval app1_eval task_docs_def tree_nested_def)
qed

theorem nested_pair_not_entered_witness:
  "sync_recursive 1000 posix_env task_docs True (start_state tree_nested) = None"
  using nested_pair_not_entered [of 1000]
  by (simp add: task_docs_def)

section \<open>Properties of the equality test\<close>

lemma stat_file:
  "faults env (OpStat p) = None \<Longrightarrow> lookup r p = Some (File c m)
   \<Longrightarrow> stat env r p = Inr \<lparr>st_size = length c, st_mtime = m\<rparr>"
  by (simp add: stat_def)

lemma stat_Inr_exists: "stat env r p = Inr s \<Longrightarrow> exists r p"
  by (auto simp: stat_def exists_def split: option.splits)

lemma files_are_equal_stats:
  "stat env r file1 = Inr s1 \<Longrightarrow> stat env r file2 = Inr s2
   \<Longrightarrow> files_are_equal env r file1 file2
       = Inr (st_size s1 = st_size s2 \<and> \<bar>st_mtime s1 - st_mtime s2\<bar> < 1)"
  by (simp add: files_are_equal_def stat_Inr_exists)

lemma sync_item_files:
  assumes "nm \<in> set dst_items"
    and "lookup (fs st) (src @ [nm]) = Some (File c1 m1)"
    and "lookup (fs st) (dst @ [nm]) = Some (File c2 m2)"
    and "faults env (OpStat (src @ [nm])) = None"
    and "faults env (OpStat (dst @ [nm])) = None"
  shows "sync_item rec n env src dst dst_items nm st =
           (if length c1 = length c2 \<and> \<bar>m1 - m2\<bar> < 1 then Some (Returned, st)
            else map_option (Pair Returned) (safe_copy n env (src @ [nm]) (dst @ [nm]) st))"
proof -
  have "files_are_equal env (fs st) (src @ [nm]) (dst @ [nm])
          = Inr (length c1 = length c2 \<and> \<bar>m1 - m2\<bar> < 1)"
    using files_are_equal_stats [OF stat_file [OF assms(4) assms(2)] stat_file [OF assms(5) assms(3)]]
    by simp
  then show ?thesis
    using assms(1,2,3) by (simp add: sync_item_def Let_def is_dir_def is_file_def)
qed


section \<open>Properties of path validation\<close>

lemma rstrip_last: "rstrip cs s \<noteq> [] \<Longrightarrow> last (rstrip cs s) \<notin> set cs"
  unfolding rstrip_def
  by (metis (mono_tags, lifting) hd_dropWhile last_rev rev_is_Nil_conv)

lemma upper_char_backslash: "upper_char c = backslash \<Longrightarrow> c = backslash"
proof (rule ccontr)
  assume u: "upper_char c = backslash" and ne: "c \<noteq> backslash"
  let ?n = "of_char c :: nat"
  have rng: "97 \<le> ?n \<and> ?n \<le> 122"
    using u ne by (auto simp: upper_char_def Let_def split: if_splits)
  then have "upper_char c = char_of (?n - 32)"
    by (simp add: upper_char_def Let_def)
  then have "(of_char (upper_char c) :: nat) = (?n - 32) mod 256"
    by simp
  moreover have "(of_char backslash :: nat) = 92"
    by (simp add: backslash_def)
  ultimately have "(?n - 32) mod 256 = 92"
    using u by simp
  moreover from rng have "(?n - 32) mod 256 = ?n - 32"
    by (intro mod_less) linarith
  ultimately show False
    using rng by linarith
qed

lemma dangerous_last: "d \<in> set (map upper dangerous) \<Longrightarrow> d \<noteq> [] \<and> last d = backslash"
  by (auto simp: dangerous_def upper_def upper_char_def backslash_def Let_def)

lemma upper_rstrip_not_dangerous:
  "upper (rstrip [backslash, CHR ''/''] s) \<notin> set (map upper dangerous)"
proof
  let ?r = "rstrip [backslash, CHR ''/''] s"
  assume a: "upper ?r \<in> set (map upper dangerous)"
  from dangerous_last [OF a] have ne: "upper ?r \<noteq> []" and l: "last (upper ?r) = backslash"
    by simp_all
  from ne have rne: "?r \<noteq> []" by (simp add: upper_def)
  from l rne have "upper_char (last ?r) = backslash"
    by (simp add: upper_def last_map)
  then have "last ?r = backslash" by (rule upper_char_backslash)
  with rstrip_last [OF rne] show False by simp
qed

text \<open>
  C6. The claim is that validation fails with the drive-root error exactly when the
  destination, stripped of trailing separators and upper-cased, is a filesystem root.
  The code strips the trailing separators of the destination and then looks the result up
  in a list whose every entry ends with a backslash, so the drive-root error is never
  raised, whatever pathlib does: the destination \<open>C:\\<close> with a source on another
  drive is accepted.
\<close>

theorem validate_paths_never_drive_root:
  "validate_paths is_absolute resolve str_of src dst \<noteq> Inl DriveRootForbidden
   \<and> validate_paths (\<lambda>_. True) id id ''D:/data'' [CHR ''C'', CHR '':'', backslash] = Inr ()"
proof
  show "validate_paths is_absolute resolve str_of src dst \<noteq> Inl DriveRootForbidden"
    using upper_rstrip_not_dangerous [of "str_of dst"]
    by (simp add: validate_paths_def Let_def)
  show "validate_paths (\<lambda>_. True) id id ''D:/data'' [CHR ''C'', CHR '':'', backslash] = Inr ()"
    using upper_rstrip_not_dangerous [of "[CHR ''C'', CHR '':'', backslash]"]
    by (simp add: validate_paths_def Let_def)
qed

theorem validate_paths_never_drive_root_witness:
  "validate_paths (\<lambda>_. True) id id ''/home/user/data'' ''/'' \<noteq> Inl DriveRootForbidden"
  using validate_paths_never_drive_root [of "\<lambda>_. True" id id "''/home/user/data''" "''/''"]
  by simp

section \<open>Running twice\<close>

text \<open>
  In \<open>app1.py\<close> the nested call is right, and the second run differs from the first for
  another reason: the first run copies \<open>logs/a.log\<close> with its directory (see C1), the
  second run enters \<open>logs\<close>, does not list \<open>a.log\<close> among the entries of the source
  because it is excluded, and removes it from the destination.
\<close>

lemma app1_second_run_deletes:
  "app1_sync_recursive (Suc (Suc n)) posix_env [''src''] [''dst''] [''*.log''] True
     (app1_start tree_logs) =
     Some (Returned,
       \<lparr>app1_fs = Dir [(''src'', Dir [(''x.txt'', File ''0123456789'' 100),
                                      (''logs'', Dir [(''a.log'', File ''started'' 200)])]),
                       (''dst'', Dir [(''x.txt'', File ''0123456789'' 100),
                                      (''logs'', Dir [(''a.log'', File ''started'' 200)])])],
        processed_files = 1, current_file = ''x.txt'',
        app1_trace = [Copied [''src'', ''x.txt''] [''dst'', ''x.txt''],
                      Copied [''src'', ''logs''] [''dst'', ''logs'']],
        progress_calls = 1\<rparr>)"
  "app1_sync_recursive (Suc (Suc n)) posix_env [''src''] [''dst''] [''*.log''] True
       \<lparr>app1_fs = Dir [(''src'', Dir [(''x.txt'', File ''0123456789'' 100),
                                      (''logs'', Dir [(''a.log'', File ''started'' 200)])]),
                       (''dst'', Dir [(''x.txt'', File ''0123456789'' 100),
                                      (''logs'', Dir [(''a.log'', File ''started'' 200)])])],
        processed_files = 1, current_file = ''x.txt'',
        app1_trace = [Copied [''src'', ''x.txt''] [''dst'', ''x.txt''],
                      Copied [''src'', ''logs''] [''dst'', ''logs'']],
        progress_calls = 1\<rparr> =
     Some (Returned,
       \<lparr>app1_fs = Dir [(''src'', Dir [(''x.txt'', File ''0123456789'' 100),
                                      (''logs'', Dir [(''a.log'', File ''started'' 200)])]),
                       (''dst'', Dir [(''x.txt'', File ''0123456789'' 100),
                                      (''logs'', Dir [])])],
        processed_files = 1, current_file = ''x.txt'',
        app1_trace = [Copied [''src'', ''x.txt''] [''dst'', ''x.txt''],
                      Copied [''src'', ''logs''] [''dst'', ''logs''],
                      Removed [''dst'', ''logs'', ''a.log'']],
        progress_calls = 1\<rparr>)"
  by (simp_all add: run_eval app1_eval tree_logs_def files_are_equal_def stat_def)



section \<open>What a run leaves alone\<close>

lemma iterdir_child_names: "iterdir env r p = Inr names \<Longrightarrow> names = child_names r p"
  by (auto simp: iterdir_def child_names_def split: option.splits node.splits)

lemma listing_src_items:
  "listing env r src dst pats = Inr (src_items, dst_items)
   \<Longrightarrow> set src_items \<subseteq> set (child_names r src)"
  by (auto simp: listing_def Let_def dest!: iterdir_child_names split: sum.splits)

lemma sync_item_frame:
  assumes rec: "\<And>s out s'. (\<forall>q\<in>Q. lookup (fs s) q = lookup (fs st0) q) \<Longrightarrow> rec s = Some (out, s')
                  \<Longrightarrow> (\<forall>q\<in>Q. lookup (fs s') q = lookup (fs s) q)"
    and par: "\<forall>q\<in>Q. q \<parallel> dst @ [nm]"
    and run: "sync_item rec n env src dst dst_items nm st = Some (out, st')"
    and agree: "\<forall>q\<in>Q. lookup (fs st) q = lookup (fs st0) q"
  shows "\<forall>q\<in>Q. lookup (fs st') q = lookup (fs st0) q"
proof
  fix q assume q: "q \<in> Q"
  with par have pq: "q \<parallel> dst @ [nm]" by blast
  have copy: "lookup (fs s') q = lookup (fs s) q"
    if "safe_copy n env (src @ [nm]) (dst @ [nm]) s = Some s'" for s s'
    using that pq by (rule safe_copy_frame)
  have rm: "lookup (fs (safe_remove env (dst @ [nm]) st)) q = lookup (fs st) q"
    using pq by (rule safe_remove_frame)
  consider (absent) "nm \<notin> set dst_items"
    | (dirs) "nm \<in> set dst_items" "is_dir (fs st) (src @ [nm]) \<and> is_dir (fs st) (dst @ [nm])"
    | (files) "nm \<in> set dst_items" "\<not> (is_dir (fs st) (src @ [nm]) \<and> is_dir (fs st) (dst @ [nm]))"
        "is_file (fs st) (src @ [nm]) \<and> is_file (fs st) (dst @ [nm])"
    | (mismatch) "nm \<in> set dst_items" "\<not> (is_dir (fs st) (src @ [nm]) \<and> is_dir (fs st) (dst @ [nm]))"
        "\<not> (is_file (fs st) (src @ [nm]) \<and> is_file (fs st) (dst @ [nm]))"
    by blast
  then have "lookup (fs st') q = lookup (fs st) q"
  proof cases
    case absent
    with run show ?thesis
      by (auto simp: sync_item_def Let_def copy)
  next
    case dirs
    with run have "rec st = Some (out, st')"
      by (simp add: sync_item_def Let_def)
    from rec [OF agree this] q show ?thesis by blast
  next
    case files
    with run show ?thesis
      by (auto simp: sync_item_def Let_def copy split: sum.splits if_splits)
  next
    case mismatch
    with run obtain s' where
      "safe_copy n env (src @ [nm]) (dst @ [nm]) (safe_remove env (dst @ [nm]) st) = Some s'"
      and "st' = s'"
      by (auto simp: sync_item_def Let_def)
    with copy rm show ?thesis by simp
  qed
  with agree q show "lookup (fs st') q = lookup (fs st0) q" by simp
qed

lemma sync_items_frame:
  assumes rec: "\<And>s out s'. (\<forall>q\<in>Q. lookup (fs s) q = lookup (fs st0) q) \<Longrightarrow> rec s = Some (out, s')
                  \<Longrightarrow> (\<forall>q\<in>Q. lookup (fs s') q = lookup (fs s) q)"
    and par: "\<forall>q\<in>Q. \<forall>nm\<in>set items. q \<parallel> dst @ [nm]"
    and run: "sync_items rec n env src dst dst_items items st = Some (out, st')"
    and agree: "\<forall>q\<in>Q. lookup (fs st) q = lookup (fs st0) q"
  shows "\<forall>q\<in>Q. lookup (fs st') q = lookup (fs st0) q"
  using par run agree
proof (induction items arbitrary: st)
  case Nil
  then show ?case by simp
next
  case (Cons nm rest)
  from Cons.prems(2) obtain out1 st1 where
    one: "sync_item rec n env src dst dst_items nm st = Some (out1, st1)"
    by (auto split: option.splits)
  from Cons.prems(1) have p1: "\<forall>q\<in>Q. q \<parallel> dst @ [nm]" by simp
  have a1: "\<forall>q\<in>Q. lookup (fs st1) q = lookup (fs st0) q"
    by (rule sync_item_frame [OF rec p1 one Cons.prems(3)])
  show ?case
  proof (cases out1)
    case (Raised e)
    with one Cons.prems(2) have "st' = st1" by simp
    with a1 show ?thesis by simp
  next
    case Returned
    with one Cons.prems(2) have r2: "sync_items rec n env src dst dst_items rest st1 = Some (out, st')"
      by simp
    from Cons.prems(1) have p2: "\<forall>q\<in>Q. \<forall>nm\<in>set rest. q \<parallel> dst @ [nm]" by simp
    show ?thesis by (rule Cons.IH [OF p2 r2 a1])
  qed
qed

lemma parallel_siblings: "a \<noteq> b \<Longrightarrow> p @ [a] \<parallel> p @ [b]"
  by (auto simp: parallel_def)

lemma sync_recursive_frame:
  assumes par: "source task \<parallel> destination task"
  shows "nm \<notin> set (child_names (fs st) (source task))
    \<Longrightarrow> sync_recursive n env task False st = Some (out, st')
    \<Longrightarrow> lookup (fs st') (source task) = lookup (fs st) (source task)
        \<and> lookup (fs st') (destination task @ [nm]) = lookup (fs st) (destination task @ [nm])"
proof (induction n arbitrary: st out st')
  case 0
  then show ?case by simp
next
  case (Suc n)
  let ?src = "source task" and ?dst = "destination task"
  let ?Q = "{?src, ?dst @ [nm]}"
  show ?case
  proof (cases "exists (fs st) ?src")
    case False
    with Suc.prems(2) show ?thesis by (auto simp: Let_def)
  next
    case True
    obtain r1 e1 where mk: "mkdir_parents env (fs st) ?dst = (r1, e1)"
      by (cases "mkdir_parents env (fs st) ?dst")
    from par have "\<not> prefix ?src ?dst" by (simp add: parallel_def)
    with mk have f_src: "lookup r1 ?src = lookup (fs st) ?src" by (rule mkdir_parents_frame)
    have "\<not> prefix (?dst @ [nm]) ?dst" by simp
    with mk have f_q: "lookup r1 (?dst @ [nm]) = lookup (fs st) (?dst @ [nm])"
      by (rule mkdir_parents_frame)
    show ?thesis
    proof (cases e1)
      case (Some e)
      with True mk Suc.prems(2) have "fs st' = r1" by (auto simp: Let_def)
      with f_src f_q show ?thesis by simp
    next
      case None
      let ?st1 = "st\<lparr>fs := r1\<rparr>"
      show ?thesis
      proof (cases "listing env r1 ?src ?dst (exclude_patterns task)")
        case (Inl e)
        with True mk None Suc.prems(2) have "fs st' = r1" by (auto simp: Let_def)
        with f_src f_q show ?thesis by simp
      next
        case (Inr items)
        obtain src_items dst_items where items: "items = (src_items, dst_items)" by (cases items)
        with Inr have sub: "set src_items \<subseteq> set (child_names r1 ?src)"
          by (auto dest: listing_src_items)
        from f_src have "child_names r1 ?src = child_names (fs st) ?src"
          by (simp add: child_names_def)
        with sub Suc.prems(1) have nm: "nm \<notin> set src_items" by auto
        from True mk None Inr items Suc.prems(2) obtain out2 where
          loop: "sync_items (sync_recursive n env task False) n env ?src ?dst dst_items src_items ?st1
                   = Some (out2, st')"
          by (auto simp: Let_def split: option.splits outcome.splits)
        have par_q: "\<forall>q\<in>?Q. \<forall>x\<in>set src_items. q \<parallel> ?dst @ [x]"
          using par nm by (auto intro: parallel_extend parallel_siblings)
        have "\<forall>q\<in>?Q. lookup (fs st') q = lookup (fs ?st1) q"
        proof (rule sync_items_frame [OF _ par_q loop])
          fix s out s'
          assume agree: "\<forall>q\<in>?Q. lookup (fs s) q = lookup (fs ?st1) q"
            and call: "sync_recursive n env task False s = Some (out, s')"
          from agree f_src have "child_names (fs s) ?src = child_names (fs st) ?src"
            by (simp add: child_names_def)
          with Suc.prems(1) have "nm \<notin> set (child_names (fs s) ?src)" by simp
          from Suc.IH [OF this call] show "\<forall>q\<in>?Q. lookup (fs s') q = lookup (fs s) q" by simp
        qed simp
        with f_src f_q show ?thesis by simp
      qed
    qed
  qed
qed

text \<open>
  C9. When \<open>delete_extra\<close> is false, a destination entry whose name is not the name of an
  entry of the source directory is the same after the run as before, with everything below
  it. Source and destination are two directories of which neither lies inside the other;
  the statement covers every way the run can end within the bound, the exceptions
  included.
\<close>

theorem extra_entries_kept_without_delete:
  assumes "\<not> delete_extra task"
    and "source task \<parallel> destination task"
    and "nm \<notin> set (child_names (fs st) (source task))"
    and "sync_recursive n env task (delete_extra task) st = Some (out, st')"
  shows "lookup (fs st') (destination task @ [nm]) = lookup (fs st) (destination task @ [nm])"
  using sync_recursive_frame [OF assms(2) assms(3), of n env out st'] assms(1,4)
  by simp

theorem extra_entries_kept_without_delete_witness:
  "\<exists>out st'. sync_recursive 2 posix_env task_keep (delete_extra task_keep) (start_state tree_stale)
       = Some (out, st')
     \<and> lookup (fs st') [''dst'', ''a.txt''] = Some (File ''abc'' 100)
     \<and> lookup (fs st') [''dst'', ''stale.bin''] = Some (File ''old bytes'' 50)"
proof -
  obtain out st' where
    run: "sync_recursive 2 posix_env task_keep (delete_extra task_keep) (start_state tree_stale)
            = Some (out, st')"
    and copied: "lookup (fs st') [''dst'', ''a.txt''] = Some (File ''abc'' 100)"
    by (simp add: run_eval task_keep_def tree_stale_def eval_nat_numeral)
  have "lookup (fs st') (destination task_keep @ [''stale.bin''])
          = lookup (fs (start_state tree_stale)) (destination task_keep @ [''stale.bin''])"
    by (rule extra_entries_kept_without_delete [OF _ _ _ run])
       (simp_all add: task_keep_def tree_stale_def start_state_def child_names_def parallel_def)
  then have "lookup (fs st') [''dst'', ''stale.bin''] = Some (File ''old bytes'' 50)"
    by (simp add: task_keep_def tree_stale_def start_state_def)
  with run copied show ?thesis by blast
qed

section \<open>The deletion pass\<close>

lemma rmtree_no_faults:
  "(\<forall>op. faults env op = None) \<Longrightarrow> rmtree_node env p (Dir kids) = (None, None)"
  "(\<forall>op. faults env op = None) \<Longrightarrow> rmtree_kids env p kids = ([], None)"
proof (induction env p "Dir kids" and env p kids arbitrary: kids rule: rmtree_node_rmtree_kids.induct)
  case (2 env p kids)
  then show ?case by simp
next
  case (3 env p)
  then show ?case by simp
next
  case (4 env p nm k ks)
  then show ?case by (cases k) simp_all
qed

lemma safe_remove_gone:
  assumes "\<forall>op. faults env op = None" and "p \<noteq> []"
  shows "lookup (fs (safe_remove env p st)) p = None"
proof (cases "lookup (fs st) p")
  case None
  with assms show ?thesis
    by (simp add: safe_remove_def is_dir_def unlink_def)
next
  case (Some nd)
  show ?thesis
  proof (cases nd)
    case (File c m)
    with Some assms lookup_remove_below [of p "fs st" "[]"] show ?thesis
      by (simp add: safe_remove_def is_dir_def unlink_def)
  next
    case (Dir kids)
    with Some assms lookup_remove_below [of p "fs st" "[]"] show ?thesis
      by (simp add: safe_remove_def is_dir_def rmtree_def rmtree_no_faults)
  qed
qed

lemma trace_safe_remove:
  "trace (safe_remove env p st) = trace st @ [Log (Removed p)]
   \<or> trace (safe_remove env p st) = trace st @ [Log (RemoveError p)]"
  by (auto simp: safe_remove_def log_callback_def count_error_def split: prod.splits option.splits)

lemma remove_extra_trace:
  "\<exists>evs. trace (remove_extra env dst src_items dst_items st) = trace st @ evs
     \<and> list_all2 (\<lambda>nm ev. ev = Log (Removed (dst @ [nm])) \<or> ev = Log (RemoveError (dst @ [nm])))
          (filter (\<lambda>nm. nm \<notin> set src_items) dst_items) evs"
proof (induction dst_items arbitrary: st)
  case Nil
  show ?case by simp
next
  case (Cons nm rest)
  show ?case
  proof (cases "nm \<in> set src_items")
    case True
    with Cons.IH [of st] show ?thesis by simp
  next
    case False
    let ?st1 = "safe_remove env (dst @ [nm]) st"
    from Cons.IH [of ?st1] obtain evs where
      evs: "trace (remove_extra env dst src_items rest ?st1) = trace ?st1 @ evs"
      "list_all2 (\<lambda>nm ev. ev = Log (Removed (dst @ [nm])) \<or> ev = Log (RemoveError (dst @ [nm])))
          (filter (\<lambda>nm. nm \<notin> set src_items) rest) evs"
      by blast
    from trace_safe_remove [of env "dst @ [nm]" st] obtain ev where
      ev: "trace ?st1 = trace st @ [ev]"
      "ev = Log (Removed (dst @ [nm])) \<or> ev = Log (RemoveError (dst @ [nm]))"
      by blast
    from False evs ev show ?thesis
      by (intro exI [of _ "ev # evs"]) simp
  qed
qed

lemma remove_extra_frame:
  "(\<forall>nm\<in>set dst_items. nm \<notin> set src_items \<longrightarrow> q \<parallel> dst @ [nm])
   \<Longrightarrow> lookup (fs (remove_extra env dst src_items dst_items st)) q = lookup (fs st) q"
  by (induction dst_items arbitrary: st) (simp_all add: safe_remove_frame)

lemma remove_extra_gone:
  assumes "\<forall>op. faults env op = None"
  shows "nm \<in> set dst_items \<Longrightarrow> nm \<notin> set src_items
    \<Longrightarrow> lookup (fs (remove_extra env dst src_items dst_items st)) (dst @ [nm]) = None"
proof (induction dst_items arbitrary: st)
  case Nil
  then show ?case by simp
next
  case (Cons x rest)
  show ?case
  proof (cases "nm \<in> set rest")
    case True
    with Cons show ?thesis by simp
  next
    case False
    with Cons.prems have x: "x = nm" by simp
    have "\<forall>y\<in>set rest. y \<notin> set src_items \<longrightarrow> dst @ [nm] \<parallel> dst @ [y]"
      using False by (auto intro: parallel_siblings)
    then have "lookup (fs (remove_extra env dst src_items rest (safe_remove env (dst @ [nm]) st)))
                 (dst @ [nm])
               = lookup (fs (safe_remove env (dst @ [nm]) st)) (dst @ [nm])"
      by (rule remove_extra_frame)
    with x Cons.prems(2) assms show ?thesis
      by (simp add: safe_remove_gone)
  qed
qed

lemma sync_recursive_delete_pass:
  assumes "exists (fs st) (source task)"
    and "mkdir_parents env (fs st) (destination task) = (r1, None)"
    and "iterdir env r1 (source task) = Inr names"
    and "iterdir env r1 (destination task) = Inr dst_items"
    and "src_items = filter (\<lambda>nm. \<not> is_excluded (normcase env) (source task @ [nm])
                                  (exclude_patterns task) (source task)) names"
    and "sync_items (sync_recursive n env task True) n env (source task) (destination task)
           dst_items src_items (st\<lparr>fs := r1\<rparr>) = Some (Returned, st2)"
  shows "sync_recursive (Suc n) env task True st
           = Some (Returned, remove_extra env (destination task) src_items dst_items st2)"
  using assms by (simp add: Let_def listing_def)

text \<open>
  C8. The deletion pass goes through the listing of the destination, which no exclusion
  test has filtered, and calls \<open>safe_remove\<close> on exactly the entries whose names are not
  in the filtered listing of the source, in listing order: each of them gets one log line.
  An entry whose name is in the filtered listing of the source is left as it is. When no
  system call fails, every entry of the destination's listing whose name is not in the
  filtered listing of the source is gone afterwards, whether or not its name matches an
  exclusion pattern. With \<open>should_delete\<close> the run ends with this pass, on the listings it
  took of the two directories.
\<close>

theorem deletion_pass_removes_extra:
  "(\<exists>evs. trace (remove_extra env dst src_items dst_items st) = trace st @ evs
      \<and> list_all2 (\<lambda>nm ev. ev = Log (Removed (dst @ [nm])) \<or> ev = Log (RemoveError (dst @ [nm])))
           (filter (\<lambda>nm. nm \<notin> set src_items) dst_items) evs)
   \<and> (nm \<in> set src_items \<longrightarrow>
        lookup (fs (remove_extra env dst src_items dst_items st)) (dst @ [nm])
          = lookup (fs st) (dst @ [nm]))
   \<and> ((\<forall>op. faults env op = None) \<and> nm \<in> set dst_items \<and> nm \<notin> set src_items \<longrightarrow>
        lookup (fs (remove_extra env dst src_items dst_items st)) (dst @ [nm]) = None)
   \<and> (exists (fs st0) (source task)
        \<and> mkdir_parents env (fs st0) (destination task) = (r1, None)
        \<and> iterdir env r1 (source task) = Inr names
        \<and> iterdir env r1 (destination task) = Inr raw
        \<and> sync_items (sync_recursive n env task True) n env (source task) (destination task) raw
             (filter (\<lambda>nm. \<not> is_excluded (normcase env) (source task @ [nm])
                               (exclude_patterns task) (source task)) names)
             (st0\<lparr>fs := r1\<rparr>) = Some (Returned, st2) \<longrightarrow>
        sync_recursive (Suc n) env task True st0
          = Some (Returned,
              remove_extra env (destination task)
                (filter (\<lambda>nm. \<not> is_excluded (normcase env) (source task @ [nm])
                                  (exclude_patterns task) (source task)) names)
                raw st2))"
proof (intro conjI impI)
  show "\<exists>evs. trace (remove_extra env dst src_items dst_items st) = trace st @ evs
      \<and> list_all2 (\<lambda>nm ev. ev = Log (Removed (dst @ [nm])) \<or> ev = Log (RemoveError (dst @ [nm])))
           (filter (\<lambda>nm. nm \<notin> set src_items) dst_items) evs"
    by (rule remove_extra_trace)
next
  assume "nm \<in> set src_items"
  then have "\<forall>x\<in>set dst_items. x \<notin> set src_items \<longrightarrow> dst @ [nm] \<parallel> dst @ [x]"
    by (auto intro: parallel_siblings)
  then show "lookup (fs (remove_extra env dst src_items dst_items st)) (dst @ [nm])
          = lookup (fs st) (dst @ [nm])"
    by (rule remove_extra_frame)
next
  assume "(\<forall>op. faults env op = None) \<and> nm \<in> set dst_items \<and> nm \<notin> set src_items"
  then show "lookup (fs (remove_extra env dst src_items dst_items st)) (dst @ [nm]) = None"
    by (simp add: remove_extra_gone)
next
  assume "exists (fs st0) (source task)
        \<and> mkdir_parents env (fs st0) (destination task) = (r1, None)
        \<and> iterdir env r1 (source task) = Inr names
        \<and> iterdir env r1 (destination task) = Inr raw
        \<and> sync_items (sync_recursive n env task True) n env (source task) (destination task) raw
             (filter (\<lambda>nm. \<not> is_excluded (normcase env) (source task @ [nm])
                               (exclude_patterns task) (source task)) names)
             (st0\<lparr>fs := r1\<rparr>) = Some (Returned, st2)"
  then have a1: "exists (fs st0) (source task)"
    and a2: "mkdir_parents env (fs st0) (destination task) = (r1, None)"
    and a3: "iterdir env r1 (source task) = Inr names"
    and a4: "iterdir env r1 (destination task) = Inr raw"
    and a5: "sync_items (sync_recursive n env task True) n env (source task) (destination task) raw
             (filter (\<lambda>nm. \<not> is_excluded (normcase env) (source task @ [nm])
                               (exclude_patterns task) (source task)) names)
             (st0\<lparr>fs := r1\<rparr>) = Some (Returned, st2)"
    by blast+
  show "sync_recursive (Suc n) env task True st0
          = Some (Returned,
              remove_extra env (destination task)
                (filter (\<lambda>nm. \<not> is_excluded (normcase env) (source task @ [nm])
                                  (exclude_patterns task) (source task)) names)
                raw st2)"
    by (rule sync_recursive_delete_pass [OF a1 a2 a3 a4 refl a5])
qed

theorem deletion_pass_removes_extra_witness:
  "lookup (fs (remove_extra posix_env [''dst''] [''a.txt''] [''a.txt'', ''old.log'', ''cache'']
                 (start_state tree_extra))) [''dst'', ''old.log''] = None
   \<and> lookup (fs (remove_extra posix_env [''dst''] [''a.txt''] [''a.txt'', ''old.log'', ''cache'']
                 (start_state tree_extra))) [''dst'', ''cache''] = None
   \<and> lookup (fs (remove_extra posix_env [''dst''] [''a.txt''] [''a.txt'', ''old.log'', ''cache'']
                 (start_state tree_extra))) [''dst'', ''a.txt''] = Some (File ''abc'' 100)"
proof -
  have nf: "\<forall>op. faults posix_env op = None"
    by (simp add: posix_env_def)
  have "lookup (fs (remove_extra posix_env [''dst''] [''a.txt''] [''a.txt'', ''old.log'', ''cache'']
                 (start_state tree_extra))) ([''dst''] @ [''old.log'']) = None"
    using deletion_pass_removes_extra [of posix_env "[''dst'']" "[''a.txt'']"
        "[''a.txt'', ''old.log'', ''cache'']" "start_state tree_extra" "''old.log''"] nf
    by simp
  moreover
  have "lookup (fs (remove_extra posix_env [''dst''] [''a.txt''] [''a.txt'', ''old.log'', ''cache'']
                 (start_state tree_extra))) ([''dst''] @ [''cache'']) = None"
    using deletion_pass_removes_extra [of posix_env "[''dst'']" "[''a.txt'']"
        "[''a.txt'', ''old.log'', ''cache'']" "start_state tree_extra" "''cache''"] nf
    by simp
  moreover
  have "lookup (fs (remove_extra posix_env [''dst''] [''a.txt''] [''a.txt'', ''old.log'', ''cache'']
                 (start_state tree_extra))) ([''dst''] @ [''a.txt''])
          = lookup (fs (start_state tree_extra)) ([''dst''] @ [''a.txt''])"
    using deletion_pass_removes_extra [of posix_env "[''dst'']" "[''a.txt'']"
        "[''a.txt'', ''old.log'', ''cache'']" "start_state tree_extra" "''a.txt''"]
    by simp
  ultimately show ?thesis
    by (simp add: start_state_def tree_extra_def)
qed

section \<open>Counting copies and failures\<close>

lemma accountedI:
  assumes "trace st' = trace st @ evs"
    and "copied_files (metrics st') = copied_files (metrics st) + int (length (filter is_progress evs))"
    and "errors (metrics st') = errors (metrics st) + int (length (filter is_failure evs))"
  shows "accounted st st'"
  using assms by (simp add: accounted_def Let_def)

lemma accountedD:
  assumes "accounted st st'"
  obtains evs where "trace st' = trace st @ evs"
    and "copied_files (metrics st') = copied_files (metrics st) + int (length (filter is_progress evs))"
    and "errors (metrics st') = errors (metrics st) + int (length (filter is_failure evs))"
  using assms by (auto simp: accounted_def Let_def)

lemma accounted_refl: "accounted st st"
  by (rule accountedI [of _ _ "[]"]) simp_all

lemma accounted_trans:
  assumes "accounted a b" and "accounted b c"
  shows "accounted a c"
proof -
  from assms(1) obtain e1 where 1: "trace b = trace a @ e1"
    "copied_files (metrics b) = copied_files (metrics a) + int (length (filter is_progress e1))"
    "errors (metrics b) = errors (metrics a) + int (length (filter is_failure e1))"
    by (rule accountedD)
  from assms(2) obtain e2 where 2: "trace c = trace b @ e2"
    "copied_files (metrics c) = copied_files (metrics b) + int (length (filter is_progress e2))"
    "errors (metrics c) = errors (metrics b) + int (length (filter is_failure e2))"
    by (rule accountedD)
  show ?thesis
    by (rule accountedI [of _ _ "e1 @ e2"]) (simp_all add: 1 2)
qed

lemma accounted_fs: "accounted st (st\<lparr>fs := r\<rparr>)"
  by (rule accountedI [of _ _ "[]"]) simp_all

lemma accounted_copy_failed:
  "accounted st (count_error (log_callback (CopyError src dst) (st\<lparr>fs := r\<rparr>)))"
  by (rule accountedI [of _ _ "[Log (CopyError src dst)]"])
     (simp_all add: count_error_def log_callback_def)

lemma accounted_remove_failed:
  "accounted st (count_error (log_callback (RemoveError p) (st\<lparr>fs := r\<rparr>)))"
  by (rule accountedI [of _ _ "[Log (RemoveError p)]"])
     (simp_all add: count_error_def log_callback_def)

lemma accounted_log:
  "\<not> is_failure (Log m) \<Longrightarrow> accounted st (log_callback m (st\<lparr>fs := r\<rparr>))"
  by (rule accountedI [of _ _ "[Log m]"]) (simp_all add: log_callback_def)

lemma accounted_file_copied:
  "accounted st (log_callback (Copied src dst) (update_progress (count_copied (st\<lparr>fs := r\<rparr>))))"
  by (rule accountedI [of _ _ "[Progress (metrics (count_copied st)), Log (Copied src dst)]"])
     (simp_all add: count_copied_def log_callback_def update_progress_def)

lemma safe_copy_accounted:
  "safe_copy n env src dst st = Some st' \<Longrightarrow> accounted st st'"
  by (auto simp: safe_copy_def accounted_copy_failed accounted_log accounted_file_copied
      split: prod.splits option.splits if_splits)

lemma safe_remove_accounted: "accounted st (safe_remove env p st)"
  by (auto simp: safe_remove_def accounted_remove_failed accounted_log
      split: prod.splits option.splits)

lemma remove_extra_accounted: "accounted st (remove_extra env dst src_items dst_items st)"
proof (induction dst_items arbitrary: st)
  case Nil
  show ?case by (simp add: accounted_refl)
next
  case (Cons nm rest)
  show ?case
  proof (cases "nm \<in> set src_items")
    case True
    with Cons.IH [of st] show ?thesis by simp
  next
    case False
    with accounted_trans [OF safe_remove_accounted Cons.IH] show ?thesis by simp
  qed
qed

lemma sync_item_accounted:
  assumes rec: "\<And>s out s'. rec s = Some (out, s') \<Longrightarrow> accounted s s'"
    and run: "sync_item rec n env src dst dst_items nm st = Some (out, st')"
  shows "accounted st st'"
proof -
  consider (absent) "nm \<notin> set dst_items"
    | (dirs) "nm \<in> set dst_items" "is_dir (fs st) (src @ [nm]) \<and> is_dir (fs st) (dst @ [nm])"
    | (files) "nm \<in> set dst_items" "\<not> (is_dir (fs st) (src @ [nm]) \<and> is_dir (fs st) (dst @ [nm]))"
        "is_file (fs st) (src @ [nm]) \<and> is_file (fs st) (dst @ [nm])"
    | (mismatch) "nm \<in> set dst_items" "\<not> (is_dir (fs st) (src @ [nm]) \<and> is_dir (fs st) (dst @ [nm]))"
        "\<not> (is_file (fs st) (src @ [nm]) \<and> is_file (fs st) (dst @ [nm]))"
    by blast
  then show ?thesis
  proof cases
    case absent
    with run show ?thesis
      by (auto simp: sync_item_def Let_def safe_copy_accounted)
  next
    case dirs
    with run have "rec st = Some (out, st')"
      by (simp add: sync_item_def Let_def)
    then show ?thesis by (rule rec)
  next
    case files
    with run show ?thesis
      by (auto simp: sync_item_def Let_def safe_copy_accounted accounted_refl
          split: sum.splits if_splits)
  next
    case mismatch
    with run have
      "safe_copy n env (src @ [nm]) (dst @ [nm]) (safe_remove env (dst @ [nm]) st) = Some st'"
      by (auto simp: sync_item_def Let_def)
    from accounted_trans [OF safe_remove_accounted safe_copy_accounted [OF this]]
    show ?thesis .
  qed
qed

lemma sync_items_accounted:
  assumes rec: "\<And>s out s'. rec s = Some (out, s') \<Longrightarrow> accounted s s'"
  shows "sync_items rec n env src dst dst_items items st = Some (out, st') \<Longrightarrow> accounted st st'"
proof (induction items arbitrary: st)
  case Nil
  then show ?case by (simp add: accounted_refl)
next
  case (Cons nm rest)
  from Cons.prems obtain out1 st1 where
    one: "sync_item rec n env src dst dst_items nm st = Some (out1, st1)"
    by (auto split: option.splits)
  have a1: "accounted st st1"
    by (rule sync_item_accounted [OF rec one])
  show ?case
  proof (cases out1)
    case (Raised e)
    with one Cons.prems have "st' = st1" by simp
    with a1 show ?thesis by simp
  next
    case Returned
    with one Cons.prems have "sync_items rec n env src dst dst_items rest st1 = Some (out, st')"
      by simp
    from accounted_trans [OF a1 Cons.IH [OF this]] show ?thesis .
  qed
qed

lemma sync_recursive_accounted:
  "sync_recursive n env task should_delete st = Some (out, st') \<Longrightarrow> accounted st st'"
proof (induction n arbitrary: st out st')
  case 0
  then show ?case by simp
next
  case (Suc n)
  let ?src = "source task" and ?dst = "destination task"
  show ?case
  proof (cases "exists (fs st) ?src")
    case False
    with Suc.prems accounted_log [of "SourceMissing ?src" st "fs st"] show ?thesis
      by (auto simp: Let_def)
  next
    case True
    obtain r1 e1 where mk: "mkdir_parents env (fs st) ?dst = (r1, e1)"
      by (cases "mkdir_parents env (fs st) ?dst")
    show ?thesis
    proof (cases e1)
      case (Some e)
      with True mk Suc.prems show ?thesis by (auto simp: Let_def accounted_fs)
    next
      case None
      show ?thesis
      proof (cases "listing env r1 ?src ?dst (exclude_patterns task)")
        case (Inl e)
        with True mk None Suc.prems show ?thesis
          by (auto simp: Let_def accounted_log)
      next
        case (Inr items)
        obtain src_items dst_items where items: "items = (src_items, dst_items)" by (cases items)
        from True mk None Inr items Suc.prems obtain out2 st2 where
          loop: "sync_items (sync_recursive n env task should_delete) n env ?src ?dst dst_items
                   src_items (st\<lparr>fs := r1\<rparr>) = Some (out2, st2)"
          and fin: "st' = st2 \<or> st' = remove_extra env ?dst src_items dst_items st2"
          by (auto simp: Let_def split: option.splits outcome.splits if_splits)
        have "accounted (st\<lparr>fs := r1\<rparr>) st2"
          using Suc.IH by (rule sync_items_accounted [OF _ loop])
        with accounted_fs [of st r1] have "accounted st st2"
          by (rule accounted_trans)
        with fin remove_extra_accounted [of st2 env ?dst src_items dst_items] show ?thesis
          by (auto intro: accounted_trans)
      qed
    qed
  qed
qed

lemma safe_copy_file_copied:
  assumes "mkdir_parents env (fs st) (butlast dst) = (r1, None)" and "\<not> is_dir r1 src"
    and "copy2 env r1 src dst = (r2, None)"
  shows "safe_copy n env src dst st =
           Some (st\<lparr>fs := r2,
                    metrics := (metrics st)\<lparr>copied_files := copied_files (metrics st) + 1\<rparr>,
                    trace := trace st @
                      [Progress ((metrics st)\<lparr>copied_files := copied_files (metrics st) + 1\<rparr>),
                       Log (Copied src dst)]\<rparr>)"
  using assms
  by (simp add: safe_copy_def log_callback_def update_progress_def count_copied_def)

lemma safe_copy_directory_copied:
  assumes "mkdir_parents env (fs st) (butlast dst) = (r1, None)" and "is_dir r1 src"
    and "copytree n env r1 src dst = Some (r2, None)"
  shows "safe_copy n env src dst st = Some (st\<lparr>fs := r2, trace := trace st @ [Log (Copied src dst)]\<rparr>)"
  using assms by (simp add: safe_copy_def log_callback_def)

lemma safe_copy_failed:
  assumes "mkdir_parents env (fs st) (butlast dst) = (r2, Some e)
           \<or> (mkdir_parents env (fs st) (butlast dst) = (r1, None) \<and> is_dir r1 src
               \<and> copytree n env r1 src dst = Some (r2, Some e))
           \<or> (mkdir_parents env (fs st) (butlast dst) = (r1, None) \<and> \<not> is_dir r1 src
               \<and> copy2 env r1 src dst = (r2, Some e))"
  shows "safe_copy n env src dst st =
           Some (st\<lparr>fs := r2, metrics := (metrics st)\<lparr>errors := errors (metrics st) + 1\<rparr>,
                    trace := trace st @ [Log (CopyError src dst)]\<rparr>)"
  using assms by (auto simp: safe_copy_def log_callback_def count_error_def)

lemma safe_remove_failed:
  assumes "(if is_dir (fs st) p then rmtree env (fs st) p else unlink env (fs st) p) = (r1, Some e)"
  shows "safe_remove env p st =
           st\<lparr>fs := r1, metrics := (metrics st)\<lparr>errors := errors (metrics st) + 1\<rparr>,
              trace := trace st @ [Log (RemoveError p)]\<rparr>"
  using assms by (simp add: safe_remove_def log_callback_def count_error_def)

lemma sync_items_after_copy:
  "nm \<notin> set dst_items \<Longrightarrow>
   sync_items rec n env src dst dst_items (nm # rest) st =
     (case safe_copy n env (src @ [nm]) (dst @ [nm]) st of
        None \<Rightarrow> None
      | Some st1 \<Rightarrow> sync_items rec n env src dst dst_items rest st1)"
  by (simp add: sync_item_def Let_def split: option.splits)




section \<open>Exceptions that leave the run\<close>

lemma sync_item_raised:
  assumes rec: "\<And>s s'. rec s = Some (Raised e, s') \<Longrightarrow> P s'"
    and cmp: "\<And>s nm. files_are_equal env (fs s) (src @ [nm]) (dst @ [nm]) = Inl e \<Longrightarrow> P s"
    and run: "sync_item rec n env src dst dst_items nm st = Some (Raised e, st')"
  shows "P st'"
proof -
  consider (absent) "nm \<notin> set dst_items"
    | (dirs) "nm \<in> set dst_items" "is_dir (fs st) (src @ [nm]) \<and> is_dir (fs st) (dst @ [nm])"
    | (files) "nm \<in> set dst_items" "\<not> (is_dir (fs st) (src @ [nm]) \<and> is_dir (fs st) (dst @ [nm]))"
        "is_file (fs st) (src @ [nm]) \<and> is_file (fs st) (dst @ [nm])"
    | (mismatch) "nm \<in> set dst_items" "\<not> (is_dir (fs st) (src @ [nm]) \<and> is_dir (fs st) (dst @ [nm]))"
        "\<not> (is_file (fs st) (src @ [nm]) \<and> is_file (fs st) (dst @ [nm]))"
    by blast
  then show ?thesis
  proof cases
    case absent
    with run show ?thesis
      by (auto simp: sync_item_def Let_def)
  next
    case dirs
    with run have "rec st = Some (Raised e, st')"
      by (simp add: sync_item_def Let_def)
    then show ?thesis by (rule rec)
  next
    case files
    with run have "files_are_equal env (fs st) (src @ [nm]) (dst @ [nm]) = Inl e" and "st' = st"
      by (auto simp: sync_item_def Let_def split: sum.splits if_splits)
    with cmp show ?thesis by blast
  next
    case mismatch
    with run show ?thesis
      by (auto simp: sync_item_def Let_def)
  qed
qed

lemma sync_items_raised:
  assumes rec: "\<And>s s'. rec s = Some (Raised e, s') \<Longrightarrow> P s'"
    and cmp: "\<And>s nm. files_are_equal env (fs s) (src @ [nm]) (dst @ [nm]) = Inl e \<Longrightarrow> P s"
  shows "sync_items rec n env src dst dst_items items st = Some (Raised e, st') \<Longrightarrow> P st'"
proof (induction items arbitrary: st)
  case Nil
  then show ?case by simp
next
  case (Cons nm rest)
  from Cons.prems obtain out1 st1 where
    one: "sync_item rec n env src dst dst_items nm st = Some (out1, st1)"
    by (auto split: option.splits)
  show ?case
  proof (cases out1)
    case (Raised e1)
    with one Cons.prems have "e1 = e" and "st' = st1" by simp_all
    with one Raised have "sync_item rec n env src dst dst_items nm st = Some (Raised e, st')"
      by simp
    show ?thesis
    proof (rule sync_item_raised [where rec = rec and P = P and e = e and env = env
            and src = src and dst = dst])
      show "sync_item rec n env src dst dst_items nm st = Some (Raised e, st')"
        by fact
    qed (use rec cmp in blast)+
  next
    case Returned
    with one Cons.prems have "sync_items rec n env src dst dst_items rest st1 = Some (Raised e, st')"
      by simp
    then show ?thesis by (rule Cons.IH)
  qed
qed

lemma sync_recursive_raised:
  "sync_recursive n env task should_delete st = Some (Raised e, st') \<Longrightarrow>
     (\<exists>r. mkdir_parents env r (destination task) = (fs st', Some e))
     \<or> (\<exists>nm. files_are_equal env (fs st') (source task @ [nm]) (destination task @ [nm]) = Inl e)"
proof (induction n arbitrary: st st')
  case 0
  then show ?case by simp
next
  case (Suc n)
  let ?src = "source task" and ?dst = "destination task"
  let ?P = "\<lambda>s. (\<exists>r. mkdir_parents env r ?dst = (fs s, Some e))
     \<or> (\<exists>nm. files_are_equal env (fs s) (?src @ [nm]) (?dst @ [nm]) = Inl e)"
  from Suc.prems have ex: "exists (fs st) ?src"
    by (auto simp: Let_def split: if_splits)
  obtain r1 e1 where mk: "mkdir_parents env (fs st) ?dst = (r1, e1)"
    by (cases "mkdir_parents env (fs st) ?dst")
  show ?case
  proof (cases e1)
    case (Some e2)
    with ex mk Suc.prems have "e2 = e" and "fs st' = r1" by (auto simp: Let_def)
    with mk Some show ?thesis by auto
  next
    case None
    show ?thesis
    proof (cases "listing env r1 ?src ?dst (exclude_patterns task)")
      case (Inl e2)
      with ex mk None Suc.prems show ?thesis by (auto simp: Let_def)
    next
      case (Inr items)
      obtain src_items dst_items where items: "items = (src_items, dst_items)" by (cases items)
      from ex mk None Inr items Suc.prems have
        loop: "sync_items (sync_recursive n env task should_delete) n env ?src ?dst dst_items
                 src_items (st\<lparr>fs := r1\<rparr>) = Some (Raised e, st')"
        by (auto simp: Let_def split: option.splits outcome.splits)
      show ?thesis
      proof (rule sync_items_raised [where P = ?P and e = e and env = env and src = ?src
            and dst = ?dst and rec = "sync_recursive n env task should_delete"])
        show "sync_items (sync_recursive n env task should_delete) n env ?src ?dst dst_items
                 src_items (st\<lparr>fs := r1\<rparr>) = Some (Raised e, st')"
          by (fact loop)
      next
        fix s s'
        assume "sync_recursive n env task should_delete s = Some (Raised e, s')"
        then show "?P s'" by (rule Suc.IH)
      next
        fix s nm
        assume "files_are_equal env (fs s) (?src @ [nm]) (?dst @ [nm]) = Inl e"
        then show "?P s" by blast
      qed
    qed
  qed
qed

lemma sync_recursive_listing_failed:
  assumes "exists (fs st) (source task)"
    and "mkdir_parents env (fs st) (destination task) = (r1, None)"
    and "listing env r1 (source task) (destination task) (exclude_patterns task) = Inl e"
  shows "sync_recursive (Suc n) env task should_delete st =
           Some (Returned,
             st\<lparr>fs := r1,
                trace := trace st @
                  [Log (if e = PermissionError then NoAccess (source task) (destination task)
                        else AccessError (source task) (destination task))]\<rparr>)"
  using assms by (simp add: Let_def log_callback_def)




end
